theory Spec2Isabelle
  imports Main "HOL-Library.Word"
begin

section \<open>Data model of \<open>bucketedTimeSeries.go\<close>\<close>

text \<open>
  Go's fixed-width unsigned integers are words: \<open>+\<close> wraps, \<open>mod\<close> and the
  comparisons are unsigned. An \<open>error\<close> value is carried as its message; \<open>nil\<close> is the
  outcome \<open>NoError\<close>. A run-time panic (integer division by zero, index out of range)
  is an outcome of its own, since the source performs \<open>%\<close> and slice indexing unguarded.
  Every operation holds the lock of the series for its whole body, so an operation is
  one function from the state before to the state after; the series is one built by
  \<open>NewBucketedTimeSeries\<close> (its stream is not \<open>nil\<close>), and \<open>Put\<close> is given a point.
\<close>

type_synonym uint8 = "8 word"
type_synonym uint16 = "16 word"
type_synonym uint32 = "32 word"
type_synonym uint64 = "64 word"
type_synonym int64 = "64 word"
type_synonym bytes = "8 word list"
type_synonym error = string

datatype panic = DivideByZero | IndexOutOfRange

datatype outcome = NoError | Error error | Panic panic

text \<open>
  \<open>Series\<close> is declared outside the shown sources. The controller touches its fields
  \<open>Bs.Stream\<close> and \<open>ExtraData\<close>; whatever else the encoder keeps is the field \<open>rest\<close>.
\<close>

record 'r Series =
  Bs_Stream :: bytes
  ExtraData :: uint16
  rest :: 'r

text \<open>\<open>pb.TimeValuePair\<close>: the double is only passed through, as its 64-bit pattern.\<close>

record TimeValuePair =
  Timestamp :: int64
  Value :: uint64

record TimeSeriesBlock =
  Data :: bytes
  Count :: uint16

record 'r BucketedTimeSeries =
  b_stream :: "'r Series"
  b_count :: uint16
  b_current :: uint32
  b_queriedBucketsAgo :: uint8
  b_blocks :: "uint64 list"

text \<open>
  The storage object is a state \<open>'s\<close> that \<open>Store\<close> and \<open>Fetch\<close> may change. Beside it
  the model keeps the list of calls made so far, so that statements about which
  requests reach the storage can be written down.
\<close>

datatype call = StoreCall uint32 bytes uint16 uint32 | FetchCall uint32 uint64

record 's BucketStorage =
  sstate :: 's
  calls :: "call list"

text \<open>
  The collaborators that are not declared in the shown sources are parameters of the
  model: the methods of \<open>Series\<close>, the methods of \<open>BucketStorage\<close>, the configuration
  value \<open>TSDBConf.MinTimestampDelta\<close> and the constants \<open>INVALID_ID\<close> and
  \<open>DEFAULT_CATEGORY\<close>. \<open>NumBuckets\<close> stands for \<open>uint32(storage.NumBuckets())\<close>, the
  form in which every use site consumes it. \<open>Series_Append\<close> returns the error (or
  \<open>None\<close> for \<open>nil\<close>) together with the stream it leaves behind.
\<close>

record ('r, 's) collaborators =
  NewSeries :: "'r Series"
  Series_Reset :: "'r Series \<Rightarrow> 'r Series"
  Series_Append :: "'r Series \<Rightarrow> int64 \<Rightarrow> uint64 \<Rightarrow> int64 \<Rightarrow> error option \<times> 'r Series"
  Series_ReadData :: "'r Series \<Rightarrow> bytes"
  MinTimestampDelta :: int64
  NumBuckets :: "'s \<Rightarrow> uint32"
  Store :: "'s \<Rightarrow> uint32 \<Rightarrow> bytes \<Rightarrow> uint16 \<Rightarrow> uint32 \<Rightarrow> (error + uint64) \<times> 's"
  Fetch :: "'s \<Rightarrow> uint32 \<Rightarrow> uint64 \<Rightarrow> (error + bytes \<times> uint16) \<times> 's"
  INVALID_ID :: uint64
  DEFAULT_CATEGORY :: uint16

definition storage_Store ::
  "('r, 's) collaborators \<Rightarrow> 's BucketStorage \<Rightarrow> uint32 \<Rightarrow> bytes \<Rightarrow> uint16 \<Rightarrow> uint32
     \<Rightarrow> (error + uint64) \<times> 's BucketStorage" where
  "storage_Store env storage bucket data cnt timeSeriesId =
     (case Store env (sstate storage) bucket data cnt timeSeriesId of
        (r, s') \<Rightarrow>
          (r, \<lparr>sstate = s', calls = calls storage @ [StoreCall bucket data cnt timeSeriesId]\<rparr>))"

definition storage_Fetch ::
  "('r, 's) collaborators \<Rightarrow> 's BucketStorage \<Rightarrow> uint32 \<Rightarrow> uint64
     \<Rightarrow> (error + bytes \<times> uint16) \<times> 's BucketStorage" where
  "storage_Fetch env storage bucket blockId =
     (case Fetch env (sstate storage) bucket blockId of
        (r, s') \<Rightarrow> (r, \<lparr>sstate = s', calls = calls storage @ [FetchCall bucket blockId]\<rparr>))"

definition storage_NumBuckets :: "('r, 's) collaborators \<Rightarrow> 's BucketStorage \<Rightarrow> uint32" where
  "storage_NumBuckets env storage = NumBuckets env (sstate storage)"

text \<open>
  Modelled from the spec: \<open>MinUint32\<close> and \<open>MaxUint32\<close> are helpers of the repository
  that are not in the shown sources; \<open>Get\<close> uses them to clamp its range.
\<close>

definition MinUint32 :: "uint32 \<Rightarrow> uint32 \<Rightarrow> uint32" where
  "MinUint32 a b = (if a < b then a else b)"

definition MaxUint32 :: "uint32 \<Rightarrow> uint32 \<Rightarrow> uint32" where
  "MaxUint32 a b = (if a > b then a else b)"

section \<open>Construction\<close>

definition NewBucketedTimeSeries :: "('r, 's) collaborators \<Rightarrow> 'r BucketedTimeSeries" where
  "NewBucketedTimeSeries env =
     \<lparr>b_stream = NewSeries env, b_count = 0, b_current = 0, b_queriedBucketsAgo = 0, b_blocks = []\<rparr>"

definition Reset ::
  "('r, 's) collaborators \<Rightarrow> uint8 \<Rightarrow> 'r BucketedTimeSeries \<Rightarrow> 'r BucketedTimeSeries" where
  "Reset env n b =
     b\<lparr>b_queriedBucketsAgo := 255,
       b_current := 0,
       b_blocks := replicate (unat n) (INVALID_ID env),
       b_count := 0,
       b_stream := (Series_Reset env (b_stream b))\<lparr>ExtraData := DEFAULT_CATEGORY env\<rparr>\<rparr>"

section \<open>Rotation\<close>

text \<open>The slot of bucket \<open>i\<close> in a ring of \<open>n\<close> identifiers: \<open>i % uint32(n)\<close>.\<close>

definition slot :: "uint32 \<Rightarrow> uint32 \<Rightarrow> nat" where
  "slot i n = unat (i mod n)"

text \<open>
  One pass through the body of the loop in \<open>open\<close>. A failing \<open>Store\<close> returns its
  error before anything is written; the slot assignment panics when the storage
  reports zero buckets or the slot lies outside \<open>b_blocks\<close>.
\<close>

definition open_step ::
  "('r, 's) collaborators \<Rightarrow> uint32 \<Rightarrow> 'r BucketedTimeSeries \<Rightarrow> 's BucketStorage
     \<Rightarrow> outcome \<times> 'r BucketedTimeSeries \<times> 's BucketStorage" where
  "open_step env timeSeriesId b storage =
     (case (if b_count b > 0
            then storage_Store env storage (b_current b) (Bs_Stream (b_stream b)) (b_count b)
                   timeSeriesId
            else (Inr (INVALID_ID env), storage)) of
        (Inl err, storage') \<Rightarrow> (Error err, b, storage')
      | (Inr blockId, storage') \<Rightarrow>
          (let n = storage_NumBuckets env storage' in
           if n = 0 then (Panic DivideByZero, b, storage')
           else if \<not> slot (b_current b) n < length (b_blocks b)
           then (Panic IndexOutOfRange, b, storage')
           else (NoError,
                 b\<lparr>b_blocks := (b_blocks b)[slot (b_current b) n := blockId],
                   b_count := 0,
                   b_stream := Series_Reset env (b_stream b),
                   b_current := b_current b + 1,
                   b_queriedBucketsAgo :=
                     (if b_queriedBucketsAgo b < 255 then b_queriedBucketsAgo b + 1
                      else b_queriedBucketsAgo b)\<rparr>,
                 storage')))"

function open_loop ::
  "('r, 's) collaborators \<Rightarrow> uint32 \<Rightarrow> uint32 \<Rightarrow> 'r BucketedTimeSeries \<Rightarrow> 's BucketStorage
     \<Rightarrow> outcome \<times> 'r BucketedTimeSeries \<times> 's BucketStorage" where
  "open_loop env nxt timeSeriesId b storage =
     (if b_current b \<noteq> nxt
      then (case open_step env timeSeriesId b storage of
              (NoError, b', storage') \<Rightarrow> open_loop env nxt timeSeriesId b' storage'
            | (Error err, b', storage') \<Rightarrow> (Error err, b', storage')
            | (Panic p, b', storage') \<Rightarrow> (Panic p, b', storage'))
      else (NoError, b, storage))"
  by pat_completeness auto

termination
proof (relation "measure (\<lambda>(env, nxt, timeSeriesId, b, storage). unat (nxt - b_current b))",
    goal_cases)
  case 1
  show ?case by simp
next
  case (2 env nxt timeSeriesId b storage x y b' storage')
  from 2 have step: "open_step env timeSeriesId b storage = (NoError, b', storage')"
    by simp
  have cur: "b_current b' = b_current b + 1"
    using step
    by (auto simp: open_step_def Let_def split: if_splits prod.splits sum.splits)
  have nz: "nxt - b_current b \<noteq> 0"
    using 2 by simp
  have eq: "nxt - b_current b' = (nxt - b_current b) - 1"
    by (simp add: cur)
  have "unat (nxt - b_current b') = unat (nxt - b_current b) - 1"
    unfolding eq by (rule unat_minus_one [OF nz])
  moreover have "unat (nxt - b_current b) \<noteq> 0"
    using nz by (simp add: unat_eq_0)
  ultimately show ?case
    using 2 by auto
qed

text \<open>
  \<open>open\<close>: from the sentinel \<open>0\<close> the series adopts \<open>nxt\<close> at once; otherwise the
  loop closes one bucket after the other until \<open>b_current\<close> equals \<open>nxt\<close>.
\<close>

definition "open" ::
  "('r, 's) collaborators \<Rightarrow> uint32 \<Rightarrow> uint32 \<Rightarrow> 'r BucketedTimeSeries \<Rightarrow> 's BucketStorage
     \<Rightarrow> outcome \<times> 'r BucketedTimeSeries \<times> 's BucketStorage" where
  "open env nxt timeSeriesId b storage =
     (if b_current b = 0 then (NoError, b\<lparr>b_current := nxt\<rparr>, storage)
      else open_loop env nxt timeSeriesId b storage)"

section \<open>Writing\<close>

definition Put ::
  "('r, 's) collaborators \<Rightarrow> uint32 \<Rightarrow> uint32 \<Rightarrow> TimeValuePair \<Rightarrow> uint16 option
     \<Rightarrow> 'r BucketedTimeSeries \<Rightarrow> 's BucketStorage
     \<Rightarrow> outcome \<times> 'r BucketedTimeSeries \<times> 's BucketStorage" where
  "Put env i timeSeriesId dp category b storage =
     (if i < b_current b then (Error ''Invalid bucket number!'', b, storage)
      else
        (case (if i > b_current b then open env i timeSeriesId b storage
               else (NoError, b, storage)) of
           (NoError, b1, storage1) \<Rightarrow>
             (case Series_Append env (b_stream b1) (Timestamp dp) (Value dp)
                     (MinTimestampDelta env) of
                (Some err, s') \<Rightarrow> (Error err, b1\<lparr>b_stream := s'\<rparr>, storage1)
              | (None, s') \<Rightarrow>
                  (NoError,
                   b1\<lparr>b_stream := (case category of None \<Rightarrow> s'
                                     | Some c \<Rightarrow> s'\<lparr>ExtraData := c\<rparr>),
                      b_count := b_count b1 + 1\<rparr>,
                   storage1))
         | (Error err, b1, storage1) \<Rightarrow> (Error err, b1, storage1)
         | (Panic p, b1, storage1) \<Rightarrow> (Panic p, b1, storage1)))"

definition SetCurrentBucket ::
  "('r, 's) collaborators \<Rightarrow> uint32 \<Rightarrow> uint32 \<Rightarrow> 'r BucketedTimeSeries \<Rightarrow> 's BucketStorage
     \<Rightarrow> outcome \<times> 'r BucketedTimeSeries \<times> 's BucketStorage" where
  "SetCurrentBucket env currentBucket timeSeriesId b storage =
     (if b_current b < currentBucket then open env currentBucket timeSeriesId b storage
      else (NoError, b, storage))"

definition SetQueried :: "'r BucketedTimeSeries \<Rightarrow> 'r BucketedTimeSeries" where
  "SetQueried b = b\<lparr>b_queriedBucketsAgo := 0\<rparr>"

text \<open>
  \<open>SetDataBlock\<close> moves the series past \<open>position\<close> first and assigns the slot
  afterwards, so a panic of the assignment leaves the moved series behind.
\<close>

definition SetDataBlock ::
  "('r, 's) collaborators \<Rightarrow> uint32 \<Rightarrow> uint8 \<Rightarrow> uint64 \<Rightarrow> 'r BucketedTimeSeries
     \<Rightarrow> outcome \<times> 'r BucketedTimeSeries" where
  "SetDataBlock env position numBuckets ident b =
     (let b1 = (if position \<ge> b_current b
                then b\<lparr>b_current := position + 1, b_count := 0,
                       b_stream := Series_Reset env (b_stream b)\<rparr>
                else b)
      in if ucast numBuckets = (0 :: uint32) then (Panic DivideByZero, b1)
         else if \<not> slot position (ucast numBuckets) < length (b_blocks b1)
         then (Panic IndexOutOfRange, b1)
         else (NoError, b1\<lparr>b_blocks := (b_blocks b1)[slot position (ucast numBuckets) := ident]\<rparr>))"

section \<open>Reading\<close>

text \<open>
  The loop of \<open>Get\<close> counts a \<open>uint32\<close> up to \<open>end\<close> inclusive, which would not stop
  for \<open>end = 4294967295\<close>; a run that does not return is the value \<open>None\<close>. A fetch
  whose error is not \<open>nil\<close> adds nothing to \<open>out\<close>.
\<close>

partial_function (option) Get_loop ::
  "('r, 's) collaborators \<Rightarrow> 'r BucketedTimeSeries \<Rightarrow> uint32 \<Rightarrow> uint32 \<Rightarrow> uint32
     \<Rightarrow> TimeSeriesBlock list \<Rightarrow> 's BucketStorage
     \<Rightarrow> ((panic + TimeSeriesBlock list) \<times> 's BucketStorage) option" where
  "Get_loop env b n i end_bucket out storage =
     (if i \<le> end_bucket
      then (if n = 0 then Some (Inl DivideByZero, storage)
            else if \<not> slot i n < length (b_blocks b) then Some (Inl IndexOutOfRange, storage)
            else (case storage_Fetch env storage i (b_blocks b ! slot i n) of
                    (Inl err, storage') \<Rightarrow> Get_loop env b n (i + 1) end_bucket out storage'
                  | (Inr (data, cnt), storage') \<Rightarrow>
                      Get_loop env b n (i + 1) end_bucket
                        (out @ [\<lparr>Data = data, Count = cnt\<rparr>]) storage'))
      else Some (Inr out, storage))"

definition Get ::
  "('r, 's) collaborators \<Rightarrow> uint32 \<Rightarrow> uint32 \<Rightarrow> 'r BucketedTimeSeries \<Rightarrow> 's BucketStorage
     \<Rightarrow> (outcome \<times> TimeSeriesBlock list \<times> 'r BucketedTimeSeries \<times> 's BucketStorage) option" where
  "Get env begin_bucket end_bucket b storage =
     (let n = storage_NumBuckets env storage;
          getCurrent = (begin_bucket \<le> b_current b \<and> end_bucket \<ge> b_current b);
          end1 = (if b_current b \<ge> 1 then MinUint32 end_bucket (b_current b - 1)
                  else MinUint32 end_bucket 0);
          begin1 = (if b_current b \<ge> n then MaxUint32 begin_bucket (b_current b - n)
                    else MaxUint32 begin_bucket 0)
      in case Get_loop env b n begin1 end1 [] storage of
           None \<Rightarrow> None
         | Some (Inl p, storage') \<Rightarrow> Some (Panic p, [], b, storage')
         | Some (Inr out, storage') \<Rightarrow>
             Some (NoError,
                   (if getCurrent
                    then out @ [\<lparr>Data = Series_ReadData env (b_stream b), Count = b_count b\<rparr>]
                    else out),
                   b, storage'))"

section \<open>Accessors\<close>

function HasDataPoints_loop ::
  "('r, 's) collaborators \<Rightarrow> uint8 \<Rightarrow> 'r BucketedTimeSeries \<Rightarrow> nat \<Rightarrow> panic + bool" where
  "HasDataPoints_loop env numBuckets b i =
     (if i < unat numBuckets
      then (if \<not> i < length (b_blocks b) then Inl IndexOutOfRange
            else if b_blocks b ! i \<noteq> INVALID_ID env then Inr True
            else HasDataPoints_loop env numBuckets b (i + 1))
      else Inr False)"
  by pat_completeness auto
termination
  by (relation "measure (\<lambda>(env, numBuckets, b, i). unat numBuckets - i)") auto

definition HasDataPoints ::
  "('r, 's) collaborators \<Rightarrow> uint8 \<Rightarrow> 'r BucketedTimeSeries \<Rightarrow> panic + bool" where
  "HasDataPoints env numBuckets b =
     (if b_count b > 0 then Inr True else HasDataPoints_loop env numBuckets b 0)"

definition GetQueriedBucketsAgo :: "'r BucketedTimeSeries \<Rightarrow> uint8" where
  "GetQueriedBucketsAgo b = b_queriedBucketsAgo b"

definition GetCategory :: "'r BucketedTimeSeries \<Rightarrow> uint16" where
  "GetCategory b = ExtraData (b_stream b)"

definition SetCategory :: "uint16 \<Rightarrow> 'r BucketedTimeSeries \<Rightarrow> 'r BucketedTimeSeries" where
  "SetCategory category b = b\<lparr>b_stream := (b_stream b)\<lparr>ExtraData := category\<rparr>\<rparr>"

section \<open>The read path in the words of the specification\<close>

text \<open>
  Section 4.2 of the specification describes the historical part of a read as: for
  each bucket number of the clamped range, oldest first, resolve the slot's identifier
  through the Block Store and skip the bucket when the lookup fails. \<open>bucket_range\<close>
  and \<open>fetched_blocks\<close> say this directly; the loop of \<open>Get\<close> is compared with them.
\<close>

definition bucket_range :: "uint32 \<Rightarrow> uint32 \<Rightarrow> uint32 list" where
  "bucket_range lo hi = map of_nat [unat lo ..< Suc (unat hi)]"

fun fetched_blocks ::
  "('r, 's) collaborators \<Rightarrow> 'r BucketedTimeSeries \<Rightarrow> uint32 \<Rightarrow> uint32 list \<Rightarrow> 's BucketStorage
     \<Rightarrow> TimeSeriesBlock list \<times> 's BucketStorage" where
  "fetched_blocks env b n [] storage = ([], storage)"
| "fetched_blocks env b n (i # rest_buckets) storage =
     (case storage_Fetch env storage i (b_blocks b ! slot i n) of
        (Inl err, storage') \<Rightarrow> fetched_blocks env b n rest_buckets storage'
      | (Inr (data, cnt), storage') \<Rightarrow>
          (case fetched_blocks env b n rest_buckets storage' of
             (out, storage'') \<Rightarrow> (\<lparr>Data = data, Count = cnt\<rparr> # out, storage'')))"

text \<open>
  The two clamps of section 4.2, also in the specification's words: the end of the range
  is clamped to \<open>current_bucket - 1\<close>, or to \<open>0\<close> while \<open>current_bucket\<close> is still \<open>0\<close>; the
  beginning is clamped up to \<open>current_bucket - capacity\<close> when that is not negative.
\<close>

definition clamped_end :: "uint32 \<Rightarrow> uint32 \<Rightarrow> uint32" where
  "clamped_end cur end_bucket = (if cur = 0 then 0 else min end_bucket (cur - 1))"

definition clamped_begin :: "uint32 \<Rightarrow> uint32 \<Rightarrow> uint32 \<Rightarrow> uint32" where
  "clamped_begin cur n begin_bucket = (if n \<le> cur then max begin_bucket (cur - n) else begin_bucket)"

section \<open>A concrete instance of the collaborators\<close>

text \<open>
  Modelled from the spec: the stream and the Block Store are not in the shown sources.
  The theorems below hold for every choice of the collaborators; this one instance
  follows their interface in section 6 of the specification and serves only to run the
  controller on concrete inputs. Its stream keeps one byte per appended point and accepts
  every point, a reset clears the bytes and keeps the category, the store retains three
  buckets, hands out the position of the stored block as its identifier and fails to
  fetch an identifier it never handed out.
\<close>

definition sample_env :: "(unit, (bytes \<times> uint16) list) collaborators" where
  "sample_env =
     \<lparr>NewSeries = \<lparr>Bs_Stream = [], ExtraData = 0, rest = ()\<rparr>,
      Series_Reset = (\<lambda>s. s\<lparr>Bs_Stream := []\<rparr>),
      Series_Append = (\<lambda>s t v d. (None, s\<lparr>Bs_Stream := Bs_Stream s @ [ucast t]\<rparr>)),
      Series_ReadData = Bs_Stream,
      MinTimestampDelta = 0,
      NumBuckets = (\<lambda>s. 3),
      Store = (\<lambda>s bucket data cnt timeSeriesId. (Inr (of_nat (length s)), s @ [(data, cnt)])),
      Fetch = (\<lambda>s bucket blockId.
                 if unat blockId < length s then (Inr (s ! unat blockId), s)
                 else (Inl ''block not found'', s)),
      INVALID_ID = - 1,
      DEFAULT_CATEGORY = 0\<rparr>"

definition sample_storage :: "(bytes \<times> uint16) list BucketStorage" where
  "sample_storage = \<lparr>sstate = [], calls = []\<rparr>"

definition sample_series :: "unit BucketedTimeSeries" where
  "sample_series = Reset sample_env 3 (NewBucketedTimeSeries sample_env)"

definition sample_point :: "int64 \<Rightarrow> TimeValuePair" where
  "sample_point t = \<lparr>Timestamp = t, Value = 0\<rparr>"

text \<open>
  The state of the scenario in section 8 of the specification: capacity three, one point
  written to bucket 5 and one to bucket 7, so that bucket 5 was flushed into slot 2 and
  bucket 6 left a gap. \<open>buffered_series\<close> is a series that took one point while still
  at the sentinel.
\<close>

definition scenario_series :: "unit BucketedTimeSeries" where
  "scenario_series =
     \<lparr>b_stream = \<lparr>Bs_Stream = [11], ExtraData = 0, rest = ()\<rparr>, b_count = 1, b_current = 7,
      b_queriedBucketsAgo = 255, b_blocks = [- 1, - 1, 0]\<rparr>"

definition scenario_storage :: "(bytes \<times> uint16) list BucketStorage" where
  "scenario_storage = \<lparr>sstate = [([10], 1)], calls = [StoreCall 5 [10] 1 1]\<rparr>"

definition buffered_series :: "unit BucketedTimeSeries" where
  "buffered_series =
     sample_series\<lparr>b_stream := \<lparr>Bs_Stream = [10], ExtraData = 0, rest = ()\<rparr>, b_count := 1\<rparr>"

section \<open>Arithmetic on words\<close>

lemma unat_succ_below:
  fixes c nxt :: "'a::len word"
  assumes "c < nxt"
  shows "unat (c + 1) = Suc (unat c)"
proof -
  have "unat c < unat nxt" using assms by (simp add: word_less_nat_alt)
  moreover have "unat nxt < 2 ^ LENGTH('a)" by (rule unsigned_less)
  ultimately have "Suc (unat c) < 2 ^ LENGTH('a)" by linarith
  then show ?thesis by (simp add: unat_word_ariths)
qed

lemma succ_le_below: "(c::'a::len word) < nxt \<Longrightarrow> c + 1 \<le> nxt"
  by (simp add: word_le_nat_alt word_less_nat_alt unat_succ_below)

lemma unat_succ_not_max:
  fixes i e :: "'a::len word"
  assumes "i \<le> e" and "e \<noteq> - 1"
  shows "unat (i + 1) = Suc (unat i)"
proof -
  have "e \<le> - 1" by simp
  with assms(2) have "e < - 1" by (simp add: order_less_le)
  with assms(1) have "i < - 1" by simp
  then show ?thesis by (rule unat_succ_below)
qed

lemma unat_saturating_inc:
  "unat (if (q::8 word) < 255 then q + 1 else q) = min (Suc (unat q)) 255"
proof (cases "q < 255")
  case True
  have "unat q < 255" using True by (simp add: word_less_nat_alt)
  with True unat_succ_below [OF True] show ?thesis by simp
next
  case False
  moreover have "unat q < 2 ^ LENGTH(8)" by (rule unsigned_less)
  ultimately have "unat q = 255" by (simp add: word_less_nat_alt)
  with False show ?thesis by simp
qed

lemma unat_invalid_id: "unat (- 1 :: uint64) = 18446744073709551615"
  by (simp add: unsigned_minus_1_eq_mask mask_eq_exp_minus_1)

lemma slot_less: "n \<noteq> 0 \<Longrightarrow> slot i n < unat n"
  by (simp add: slot_def word_less_nat_alt [symmetric] word_mod_less_divisor word_neq_0_conv [symmetric] word_gt_0)

section \<open>The concrete instance, evaluated\<close>

declare open_loop.simps [simp del]

lemma sample_env_simps:
  "NumBuckets sample_env s = 3"
  "INVALID_ID sample_env = - 1"
  "Series_Reset sample_env sr = sr\<lparr>Bs_Stream := []\<rparr>"
  "Series_Append sample_env sr ts v d = (None, sr\<lparr>Bs_Stream := Bs_Stream sr @ [ucast ts]\<rparr>)"
  "Series_ReadData sample_env sr = Bs_Stream sr"
  "MinTimestampDelta sample_env = 0"
  "Store sample_env s bucket data cnt tsid = (Inr (of_nat (length s)), s @ [(data, cnt)])"
  "Fetch sample_env s bucket blockId =
     (if unat blockId < length s then (Inr (s ! unat blockId), s) else (Inl ''block not found'', s))"
  by (simp_all add: sample_env_def)

lemma sample_series_eq:
  "sample_series =
     \<lparr>b_stream = \<lparr>Bs_Stream = [], ExtraData = 0, rest = ()\<rparr>, b_count = 0, b_current = 0,
      b_queriedBucketsAgo = 255, b_blocks = [- 1, - 1, - 1]\<rparr>"
proof -
  have "unat (3 :: uint8) = 3"
    by simp
  moreover have "replicate 3 (- 1 :: uint64) = [- 1, - 1, - 1]"
    by (simp add: numeral_3_eq_3)
  ultimately have "replicate (unat (3 :: uint8)) (- 1 :: uint64) = [- 1, - 1, - 1]"
    by (simp only:)
  then show ?thesis
    by (simp add: sample_series_def Reset_def NewBucketedTimeSeries_def sample_env_def)
qed

lemma scenario_reached:
  "Put sample_env 5 1 (sample_point 10) None sample_series sample_storage
     = (NoError,
        sample_series\<lparr>b_stream := \<lparr>Bs_Stream = [10], ExtraData = 0, rest = ()\<rparr>, b_count := 1,
          b_current := 5\<rparr>,
        sample_storage)"
  "Put sample_env 7 1 (sample_point 11) None
     (sample_series\<lparr>b_stream := \<lparr>Bs_Stream = [10], ExtraData = 0, rest = ()\<rparr>, b_count := 1,
        b_current := 5\<rparr>)
     sample_storage
     = (NoError, scenario_series, scenario_storage)"
  by (simp_all add: Put_def open_def open_loop.simps open_step_def Let_def storage_NumBuckets_def
      storage_Store_def slot_def sample_series_eq sample_env_simps sample_storage_def
      sample_point_def scenario_series_def scenario_storage_def)

lemma scenario_Get:
  "Get sample_env 4 7 scenario_series scenario_storage
     = Some (NoError, [\<lparr>Data = [10], Count = 1\<rparr>, \<lparr>Data = [11], Count = 1\<rparr>], scenario_series,
         \<lparr>sstate = [([10], 1)],
          calls = [StoreCall 5 [10] 1 1, FetchCall 4 (- 1), FetchCall 5 0, FetchCall 6 (- 1)]\<rparr>)"
  by (simp add: Get_def Get_loop.simps Let_def storage_NumBuckets_def storage_Fetch_def slot_def
      MinUint32_def MaxUint32_def unat_invalid_id sample_env_simps scenario_series_def scenario_storage_def)

lemma fresh_Get:
  "Get sample_env 0 0 sample_series sample_storage
     = Some (NoError, [\<lparr>Data = [], Count = 0\<rparr>], sample_series,
         \<lparr>sstate = [], calls = [FetchCall 0 (- 1)]\<rparr>)"
  by (simp add: Get_def Get_loop.simps Let_def storage_NumBuckets_def storage_Fetch_def slot_def
      MinUint32_def MaxUint32_def unat_invalid_id sample_env_simps sample_series_eq sample_storage_def)

lemma scenario_range:
  "bucket_range (clamped_begin 7 3 4) (clamped_end 7 7) = [4, 5, 6]"
proof -
  have "clamped_begin 7 3 4 = (4 :: uint32)" by (simp add: clamped_begin_def)
  moreover have "clamped_end 7 7 = (6 :: uint32)" by (simp add: clamped_end_def)
  moreover have "[4 ..< Suc 6] = [4, 5, 6 :: nat]" by (simp add: upt_rec)
  ultimately show ?thesis by (simp add: bucket_range_def)
qed

section \<open>Properties of the rotation loop\<close>

lemma open_step_NoError:
  assumes "open_step env t b st = (NoError, b', st')"
  shows "b_current b' = b_current b + 1"
    and "b_count b' = 0"
    and "length (b_blocks b') = length (b_blocks b)"
    and "b_queriedBucketsAgo b' =
           (if b_queriedBucketsAgo b < 255 then b_queriedBucketsAgo b + 1 else b_queriedBucketsAgo b)"
    and "storage_NumBuckets env st' \<noteq> 0"
    and "slot (b_current b) (storage_NumBuckets env st') < length (b_blocks b)"
    and "b_count b = 0 \<Longrightarrow> st' = st"
    and "b_count b = 0 \<Longrightarrow>
           b_blocks b' = (b_blocks b)[slot (b_current b) (storage_NumBuckets env st) := INVALID_ID env]"
  using assms
  by (auto simp: open_step_def Let_def split: if_splits prod.splits sum.splits)

lemma open_step_failed:
  assumes "open_step env t b st = (r, b', st')" and "r \<noteq> NoError"
  shows "b' = b"
  using assms
  by (auto simp: open_step_def Let_def split: if_splits prod.splits sum.splits)

lemma open_step_gap:
  assumes "b_count b = 0" and "storage_NumBuckets env st \<noteq> 0"
    and "slot (b_current b) (storage_NumBuckets env st) < length (b_blocks b)"
  shows "open_step env t b st =
           (NoError,
            b\<lparr>b_blocks := (b_blocks b)[slot (b_current b) (storage_NumBuckets env st) := INVALID_ID env],
              b_count := 0,
              b_stream := Series_Reset env (b_stream b),
              b_current := b_current b + 1,
              b_queriedBucketsAgo :=
                (if b_queriedBucketsAgo b < 255 then b_queriedBucketsAgo b + 1
                 else b_queriedBucketsAgo b)\<rparr>,
            st)"
  using assms by (simp add: open_step_def Let_def)

lemma open_step_flush:
  assumes "b_count b > 0"
    and "storage_Store env st (b_current b) (Bs_Stream (b_stream b)) (b_count b) t = (Inr ident, st')"
    and "storage_NumBuckets env st' \<noteq> 0"
    and "slot (b_current b) (storage_NumBuckets env st') < length (b_blocks b)"
  shows "open_step env t b st =
           (NoError,
            b\<lparr>b_blocks := (b_blocks b)[slot (b_current b) (storage_NumBuckets env st') := ident],
              b_count := 0,
              b_stream := Series_Reset env (b_stream b),
              b_current := b_current b + 1,
              b_queriedBucketsAgo :=
                (if b_queriedBucketsAgo b < 255 then b_queriedBucketsAgo b + 1
                 else b_queriedBucketsAgo b)\<rparr>,
            st')"
  using assms by (simp add: open_step_def Let_def)

lemma open_step_Store_call:
  "b_count b > 0 \<Longrightarrow>
     calls (snd (snd (open_step env t b st)))
       = calls st @ [StoreCall (b_current b) (Bs_Stream (b_stream b)) (b_count b) t]"
  by (auto simp: open_step_def storage_Store_def Let_def split: prod.splits sum.splits)

lemma open_loop_done: "b_current b = nxt \<Longrightarrow> open_loop env nxt t b st = (NoError, b, st)"
  by (simp add: open_loop.simps)

lemma open_loop_step:
  "b_current b \<noteq> nxt \<Longrightarrow> open_step env t b st = (NoError, b1, st1) \<Longrightarrow>
     open_loop env nxt t b st = open_loop env nxt t b1 st1"
  by (subst open_loop.simps) simp

lemma open_loop_abort:
  "b_current b \<noteq> nxt \<Longrightarrow> open_step env t b st = (r, b1, st1) \<Longrightarrow> r \<noteq> NoError \<Longrightarrow>
     open_loop env nxt t b st = (r, b1, st1)"
  by (subst open_loop.simps) (cases r; simp)

lemma open_loop_unfold:
  "b_current b \<noteq> nxt \<Longrightarrow>
     open_loop env nxt t b st =
       (case open_step env t b st of
          (NoError, b1, st1) \<Rightarrow> open_loop env nxt t b1 st1
        | (Error err, b1, st1) \<Rightarrow> (Error err, b1, st1)
        | (Panic p, b1, st1) \<Rightarrow> (Panic p, b1, st1))"
  by (subst open_loop.simps) simp

lemma open_loop_progress:
  assumes "b_current b \<le> nxt" and "open_loop env nxt t b st = (r, b', st')"
  shows "b_current b \<le> b_current b' \<and> b_current b' \<le> nxt
         \<and> (r = NoError \<longrightarrow> b_current b' = nxt)
         \<and> length (b_blocks b') = length (b_blocks b)
         \<and> unat (b_queriedBucketsAgo b')
             = min (unat (b_queriedBucketsAgo b) + (unat (b_current b') - unat (b_current b))) 255"
  using assms
proof (induction env nxt t b st rule: open_loop.induct)
  case (1 env nxt t b st)
  show ?case
  proof (cases "b_current b = nxt")
    case True
    with "1.prems" have "b' = b" by (simp add: open_loop_done)
    moreover have "unat (b_queriedBucketsAgo b) < 2 ^ LENGTH(8)" by (rule unsigned_less)
    ultimately show ?thesis using True by simp
  next
    case False
    obtain r1 b1 st1 where step: "open_step env t b st = (r1, b1, st1)"
      by (metis prod_cases3)
    show ?thesis
    proof (cases "r1 = NoError")
      case True
      have lt: "b_current b < nxt" using False "1.prems"(1) by simp
      have cur1: "b_current b1 = b_current b + 1"
        using step True open_step_NoError(1) by blast
      have le1: "b_current b1 \<le> nxt" using lt cur1 by (simp add: succ_le_below)
      have u1: "unat (b_current b1) = Suc (unat (b_current b))"
        using lt cur1 by (simp add: unat_succ_below)
      have step1: "open_step env t b st = (NoError, b1, st1)"
        using step True by simp
      have loop: "open_loop env nxt t b1 st1 = (r, b', st')"
        using open_loop_step [OF False step1] "1.prems"(2) by simp
      have IH: "b_current b1 \<le> b_current b' \<and> b_current b' \<le> nxt
         \<and> (r = NoError \<longrightarrow> b_current b' = nxt)
         \<and> length (b_blocks b') = length (b_blocks b1)
         \<and> unat (b_queriedBucketsAgo b')
             = min (unat (b_queriedBucketsAgo b1) + (unat (b_current b') - unat (b_current b1))) 255"
        by (rule "1.IH" [OF False step1 [symmetric] refl refl le1 loop])
      have q1: "unat (b_queriedBucketsAgo b1) = min (Suc (unat (b_queriedBucketsAgo b))) 255"
        using step True open_step_NoError(4) [of env t b st b1 st1] unat_saturating_inc
        by simp
      have len1: "length (b_blocks b1) = length (b_blocks b)"
        using step True open_step_NoError(3) by blast
      have ge: "unat (b_current b1) \<le> unat (b_current b')"
        using IH by (simp add: word_le_nat_alt)
      have "b_current b \<le> b_current b'"
        using ge u1 by (simp add: word_le_nat_alt)
      moreover have "unat (b_queriedBucketsAgo b')
             = min (unat (b_queriedBucketsAgo b) + (unat (b_current b') - unat (b_current b))) 255"
      proof -
        have "unat (b_queriedBucketsAgo b')
                = min (min (Suc (unat (b_queriedBucketsAgo b))) 255
                        + (unat (b_current b') - Suc (unat (b_current b)))) 255"
          using IH q1 u1 by simp
        moreover have "Suc (unat (b_current b)) \<le> unat (b_current b')"
          using ge u1 by simp
        ultimately show ?thesis by linarith
      qed
      ultimately show ?thesis using IH len1 by simp
    next
      case False
      from open_loop_abort [OF \<open>b_current b \<noteq> nxt\<close> step False] "1.prems"(2)
      have "b' = b1" by simp
      moreover have "b1 = b" using step False by (rule open_step_failed)
      moreover have "unat (b_queriedBucketsAgo b) < 2 ^ LENGTH(8)" by (rule unsigned_less)
      ultimately show ?thesis using "1.prems"(1) False
        using open_loop_abort [OF \<open>b_current b \<noteq> nxt\<close> step False] "1.prems"(2) by auto
    qed
  qed
qed

lemma open_loop_gap:
  assumes "b_count b = 0" and "b_current b \<le> nxt"
    and "storage_NumBuckets env st = n" and "n \<noteq> 0" and "unat n \<le> length (b_blocks b)"
  shows "\<exists>b'. open_loop env nxt t b st = (NoError, b', st)
           \<and> b_current b' = nxt \<and> b_count b' = 0
           \<and> length (b_blocks b') = length (b_blocks b)
           \<and> (\<forall>k < length (b_blocks b).
                 b_blocks b' ! k = INVALID_ID env \<or> b_blocks b' ! k = b_blocks b ! k)
           \<and> (\<forall>j. b_current b \<le> j \<and> j < nxt \<longrightarrow> b_blocks b' ! slot j n = INVALID_ID env)"
  using assms
proof (induction env nxt t b st rule: open_loop.induct)
  case (1 env nxt t b st)
  show ?case
  proof (cases "b_current b = nxt")
    case True
    then show ?thesis using "1.prems" by (auto simp: open_loop_done)
  next
    case False
    define b1 where "b1 =
       b\<lparr>b_blocks := (b_blocks b)[slot (b_current b) n := INVALID_ID env],
         b_count := 0,
         b_stream := Series_Reset env (b_stream b),
         b_current := b_current b + 1,
         b_queriedBucketsAgo :=
           (if b_queriedBucketsAgo b < 255 then b_queriedBucketsAgo b + 1
            else b_queriedBucketsAgo b)\<rparr>"
    have in_range: "slot (b_current b) n < length (b_blocks b)"
      using slot_less [OF \<open>n \<noteq> 0\<close>, of "b_current b"] "1.prems"(5) by simp
    have step: "open_step env t b st = (NoError, b1, st)"
      using open_step_gap [of b env st t] "1.prems" in_range by (simp add: b1_def)
    have lt: "b_current b < nxt" using False "1.prems"(2) by simp
    have le1: "b_current b1 \<le> nxt" using lt by (simp add: b1_def succ_le_below)
    have cnt1: "b_count b1 = 0" by (simp add: b1_def)
    have len1: "length (b_blocks b1) = length (b_blocks b)" by (simp add: b1_def)
    have "\<exists>b'. open_loop env nxt t b1 st = (NoError, b', st)
           \<and> b_current b' = nxt \<and> b_count b' = 0
           \<and> length (b_blocks b') = length (b_blocks b1)
           \<and> (\<forall>k < length (b_blocks b1).
                 b_blocks b' ! k = INVALID_ID env \<or> b_blocks b' ! k = b_blocks b1 ! k)
           \<and> (\<forall>j. b_current b1 \<le> j \<and> j < nxt \<longrightarrow> b_blocks b' ! slot j n = INVALID_ID env)"
      using "1.IH" [OF False step [symmetric] refl refl cnt1 le1 "1.prems"(3) "1.prems"(4)]
        "1.prems"(5) len1 by simp
    then obtain b' where loop1: "open_loop env nxt t b1 st = (NoError, b', st)"
      and cur': "b_current b' = nxt" and cnt': "b_count b' = 0"
      and len': "length (b_blocks b') = length (b_blocks b1)"
      and keep: "\<forall>k < length (b_blocks b1).
                 b_blocks b' ! k = INVALID_ID env \<or> b_blocks b' ! k = b_blocks b1 ! k"
      and later: "\<forall>j. b_current b1 \<le> j \<and> j < nxt \<longrightarrow> b_blocks b' ! slot j n = INVALID_ID env"
      by blast
    have loop: "open_loop env nxt t b st = (NoError, b', st)"
      using open_loop_step [OF False step] loop1 by simp
    have blocks1: "\<And>k. k < length (b_blocks b) \<Longrightarrow>
        b_blocks b1 ! k = (if k = slot (b_current b) n then INVALID_ID env else b_blocks b ! k)"
      by (simp add: b1_def nth_list_update)
    have keep': "\<forall>k < length (b_blocks b).
                 b_blocks b' ! k = INVALID_ID env \<or> b_blocks b' ! k = b_blocks b ! k"
      using keep blocks1 len1 by (metis (full_types))
    have all: "\<forall>j. b_current b \<le> j \<and> j < nxt \<longrightarrow> b_blocks b' ! slot j n = INVALID_ID env"
    proof (intro allI impI)
      fix j assume j: "b_current b \<le> j \<and> j < nxt"
      show "b_blocks b' ! slot j n = INVALID_ID env"
      proof (cases "j = b_current b")
        case True
        then show ?thesis using keep in_range len1 blocks1 by (metis (full_types))
      next
        case False
        then have "b_current b < j" using j by (simp add: order_less_le)
        then have "b_current b1 \<le> j" by (simp add: b1_def succ_le_below)
        then show ?thesis using later j by simp
      qed
    qed
    show ?thesis using loop cur' cnt' len' len1 keep' all by simp
  qed
qed

lemma open_current_bounds:
  assumes "b_current b < nxt" and "open env nxt t b st = (r, b', st')"
  shows "b_current b \<le> b_current b' \<and> b_current b' \<le> nxt"
proof (cases "b_current b = 0")
  case True
  then show ?thesis using assms(2) by (auto simp: open_def)
next
  case False
  then have "open_loop env nxt t b st = (r, b', st')" using assms(2) by (simp add: open_def)
  moreover have "b_current b \<le> nxt" using assms(1) by simp
  ultimately show ?thesis using open_loop_progress by blast
qed





lemma Put_active_bucket_frame:
  assumes "Put env (b_current b) t dp category b st = (r, b', st')"
  shows "\<exists>s c. b' = b\<lparr>b_stream := s, b_count := c\<rparr> \<and> st' = st"
proof -
  obtain e s where a: "Series_Append env (b_stream b) (Timestamp dp) (Value dp)
      (MinTimestampDelta env) = (e, s)"
    by (cases "Series_Append env (b_stream b) (Timestamp dp) (Value dp) (MinTimestampDelta env)")
  show ?thesis
  proof (cases e)
    case None
    with a assms have "b' = b\<lparr>b_stream := (case category of None \<Rightarrow> s | Some c \<Rightarrow> s\<lparr>ExtraData := c\<rparr>),
        b_count := b_count b + 1\<rparr> \<and> st' = st"
      by (auto simp: Put_def)
    then show ?thesis by blast
  next
    case (Some err)
    with a assms have "b' = b\<lparr>b_stream := s, b_count := b_count b\<rparr> \<and> st' = st"
      by (auto simp: Put_def)
    then show ?thesis by blast
  qed
qed

section \<open>Properties of the read loop\<close>

lemma Get_end_clamp:
  "(if b_current b \<ge> 1 then MinUint32 en (b_current b - 1) else MinUint32 en 0)
     = clamped_end (b_current b) en"
proof (cases "b_current b = 0")
  case True
  then show ?thesis by (simp add: clamped_end_def MinUint32_def)
next
  case False
  then have "0 < b_current b" by (simp add: word_neq_0_conv)
  then have "0 + 1 \<le> b_current b" by (rule succ_le_below)
  then have "1 \<le> b_current b" by simp
  then show ?thesis using False by (auto simp: clamped_end_def MinUint32_def min_def)
qed

lemma Get_begin_clamp:
  "(if b_current b \<ge> n then MaxUint32 bg (b_current b - n) else MaxUint32 bg 0)
     = clamped_begin (b_current b) n bg"
  by (auto simp: clamped_begin_def MaxUint32_def max_def word_neq_0_conv [symmetric])

lemma clamped_end_props:
  "clamped_end cur en \<noteq> - 1"
  "clamped_end cur en \<le> en"
  "cur \<noteq> 0 \<Longrightarrow> clamped_end cur en < cur"
  "cur = 0 \<Longrightarrow> clamped_end cur en = 0"
proof -
  have dec: "unat (cur - 1) = unat cur - 1" if "cur \<noteq> 0"
    using that by (rule unat_minus_one)
  have bound: "unat cur < 2 ^ LENGTH(32)" by (rule unsigned_less)
  have pos: "0 < unat cur" if "cur \<noteq> 0" using that by (simp add: unat_gt_0)
  have lt: "cur - 1 < cur" if "cur \<noteq> 0"
    using dec [OF that] pos [OF that] by (simp add: word_less_nat_alt)
  have ne: "cur - 1 \<noteq> - 1" if "cur \<noteq> 0"
  proof
    assume "cur - 1 = - 1"
    then have "cur - 1 + 1 = - 1 + 1" by (rule arg_cong)
    then show False using that by simp
  qed
  show "clamped_end cur en \<noteq> - 1"
  proof (cases "cur = 0")
    case True then show ?thesis by (simp add: clamped_end_def)
  next
    case False
    have "min en (cur - 1) \<le> cur - 1" by simp
    moreover have "cur - 1 < - 1" using ne [OF False] by (simp add: order_less_le)
    ultimately have "min en (cur - 1) < - 1" by (rule order_le_less_trans)
    then show ?thesis using False by (simp add: clamped_end_def)
  qed
  show "clamped_end cur en \<le> en" by (simp add: clamped_end_def)
  show "clamped_end cur en < cur" if "cur \<noteq> 0"
  proof -
    have "min en (cur - 1) \<le> cur - 1" by simp
    then have "min en (cur - 1) < cur" using lt [OF that] by (rule order_le_less_trans)
    then show ?thesis using that by (simp add: clamped_end_def)
  qed
  show "clamped_end cur en = 0" if "cur = 0" using that by (simp add: clamped_end_def)
qed

lemma clamped_begin_props:
  "bg \<le> clamped_begin cur n bg"
  "unat cur - unat n \<le> unat (clamped_begin cur n bg)"
proof -
  show "bg \<le> clamped_begin cur n bg" by (simp add: clamped_begin_def)
  show "unat cur - unat n \<le> unat (clamped_begin cur n bg)"
  proof (cases "n \<le> cur")
    case True
    then have "unat (cur - n) = unat cur - unat n" by (rule unat_sub)
    moreover have "cur - n \<le> max bg (cur - n)" by simp
    ultimately show ?thesis using True by (simp add: clamped_begin_def word_le_nat_alt)
  next
    case False
    then show ?thesis by (simp add: clamped_begin_def word_le_nat_alt)
  qed
qed

lemma Get_unfold:
  "Get env bg en b st =
     (case Get_loop env b (storage_NumBuckets env st)
             (clamped_begin (b_current b) (storage_NumBuckets env st) bg)
             (clamped_end (b_current b) en) [] st of
        None \<Rightarrow> None
      | Some (Inl p, st') \<Rightarrow> Some (Panic p, [], b, st')
      | Some (Inr out, st') \<Rightarrow>
          Some (NoError,
                (if bg \<le> b_current b \<and> b_current b \<le> en
                 then out @ [\<lparr>Data = Series_ReadData env (b_stream b), Count = b_count b\<rparr>]
                 else out),
                b, st'))"
  unfolding Get_def Let_def Get_end_clamp Get_begin_clamp by (rule refl)

lemma storage_Fetch_calls:
  "storage_Fetch env st i ident = (r, st') \<Longrightarrow> calls st' = calls st @ [FetchCall i ident]"
  by (auto simp: storage_Fetch_def split: prod.splits)

lemma Get_loop_calls:
  assumes "e \<noteq> - 1"
  shows "\<exists>r st'. Get_loop env b n i e out st = Some (r, st')
           \<and> (\<exists>new. calls st' = calls st @ new
                \<and> (\<forall>c \<in> set new. \<exists>j ident. c = FetchCall j ident \<and> i \<le> j \<and> j \<le> e))"
proof (induction "Suc (unat e) - unat i" arbitrary: i out st)
  case 0
  then have "\<not> i \<le> e" by (simp add: word_le_nat_alt)
  then have "Get_loop env b n i e out st = Some (Inr out, st)"
    by (subst Get_loop.simps) simp
  then show ?case by simp
next
  case (Suc k)
  then have ile: "i \<le> e" by (simp add: word_le_nat_alt)
  have usucc: "unat (i + 1) = Suc (unat i)"
    using ile assms by (rule unat_succ_not_max)
  have k: "k = Suc (unat e) - unat (i + 1)"
    using Suc.hyps(2) usucc by simp
  have ile1: "i \<le> i + 1" using usucc by (simp add: word_le_nat_alt)
  show ?case
  proof (cases "n = 0 \<or> \<not> slot i n < length (b_blocks b)")
    case True
    then have "Get_loop env b n i e out st = Some (Inl DivideByZero, st)
        \<or> Get_loop env b n i e out st = Some (Inl IndexOutOfRange, st)"
      using ile by (subst (1 2) Get_loop.simps) auto
    then show ?thesis by auto
  next
    case False
    obtain r0 st0 where f: "storage_Fetch env st i (b_blocks b ! slot i n) = (r0, st0)"
      by (cases "storage_Fetch env st i (b_blocks b ! slot i n)")
    define out0 where "out0 =
      (case r0 of Inl err \<Rightarrow> out | Inr (data, cnt) \<Rightarrow> out @ [\<lparr>Data = data, Count = cnt\<rparr>])"
    have unfold: "Get_loop env b n i e out st = Get_loop env b n (i + 1) e out0 st0"
      using ile False f by (subst Get_loop.simps) (auto simp: out0_def split: sum.splits)
    from Suc.hyps(1) [OF k, of out0 st0]
    obtain r st' new where rec: "Get_loop env b n (i + 1) e out0 st0 = Some (r, st')"
      and cs: "calls st' = calls st0 @ new"
      and rng: "\<forall>c \<in> set new. \<exists>j ident. c = FetchCall j ident \<and> i + 1 \<le> j \<and> j \<le> e"
      by blast
    have cs0: "calls st0 = calls st @ [FetchCall i (b_blocks b ! slot i n)]"
      using f by (rule storage_Fetch_calls)
    have "calls st' = calls st @ (FetchCall i (b_blocks b ! slot i n) # new)"
      using cs cs0 by simp
    moreover have "\<forall>c \<in> set (FetchCall i (b_blocks b ! slot i n) # new).
        \<exists>j ident. c = FetchCall j ident \<and> i \<le> j \<and> j \<le> e"
      using rng ile ile1 by (auto intro: order_trans)
    ultimately show ?thesis using unfold rec by metis
  qed
qed

lemma bucket_range_empty: "\<not> i \<le> e \<Longrightarrow> bucket_range i e = []"
  by (simp add: bucket_range_def word_le_nat_alt)

lemma bucket_range_Cons:
  assumes "i \<le> e" and "e \<noteq> - 1"
  shows "bucket_range i e = i # bucket_range (i + 1) e"
proof -
  have "unat i < Suc (unat e)" using assms(1) by (simp add: word_le_nat_alt)
  then have "[unat i ..< Suc (unat e)] = unat i # [Suc (unat i) ..< Suc (unat e)]"
    by (rule upt_conv_Cons)
  then show ?thesis
    using unat_succ_not_max [OF assms] by (simp add: bucket_range_def)
qed

lemma Get_loop_fetched:
  assumes "e \<noteq> - 1" and "n \<noteq> 0" and "unat n \<le> length (b_blocks b)"
  shows "Get_loop env b n i e out st =
           Some (Inr (out @ fst (fetched_blocks env b n (bucket_range i e) st)),
                 snd (fetched_blocks env b n (bucket_range i e) st))"
proof (induction "Suc (unat e) - unat i" arbitrary: i out st)
  case 0
  then have nle: "\<not> i \<le> e" by (simp add: word_le_nat_alt)
  then have "Get_loop env b n i e out st = Some (Inr out, st)"
    by (subst Get_loop.simps) simp
  then show ?case using bucket_range_empty [OF nle] by simp
next
  case (Suc k)
  then have ile: "i \<le> e" by (simp add: word_le_nat_alt)
  have usucc: "unat (i + 1) = Suc (unat i)"
    using ile assms(1) by (rule unat_succ_not_max)
  have k: "k = Suc (unat e) - unat (i + 1)"
    using Suc.hyps(2) usucc by simp
  have in_range: "slot i n < length (b_blocks b)"
    using slot_less [OF assms(2), of i] assms(3) by simp
  obtain r0 st0 where f: "storage_Fetch env st i (b_blocks b ! slot i n) = (r0, st0)"
    by (cases "storage_Fetch env st i (b_blocks b ! slot i n)")
  define out0 where "out0 =
      (case r0 of Inl err \<Rightarrow> out | Inr (data, cnt) \<Rightarrow> out @ [\<lparr>Data = data, Count = cnt\<rparr>])"
  have unfold: "Get_loop env b n i e out st = Get_loop env b n (i + 1) e out0 st0"
    using ile assms(2) in_range f
    by (subst Get_loop.simps) (auto simp: out0_def split: sum.splits)
  have rec: "Get_loop env b n (i + 1) e out0 st0 =
           Some (Inr (out0 @ fst (fetched_blocks env b n (bucket_range (i + 1) e) st0)),
                 snd (fetched_blocks env b n (bucket_range (i + 1) e) st0))"
    by (rule Suc.hyps(1) [OF k])
  show ?case
    unfolding unfold rec bucket_range_Cons [OF ile assms(1)]
    using f by (auto simp: out0_def split: sum.splits prod.splits)
qed

section \<open>How \<open>b_current\<close> moves\<close>

text \<open>
  \<open>Put\<close> and \<open>SetCurrentBucket\<close> never move \<open>b_current\<close> backwards and never past the
  bucket number they are given, whatever their outcome. \<open>SetDataBlock\<close> moves it forward
  as well, unless \<open>position\<close> is the largest \<open>uint32\<close>.
\<close>

lemma Put_current_bounds:
  assumes "Put env i t dp category b st = (r, b', st')"
  shows "b_current b \<le> b_current b' \<and> b_current b' \<le> max (b_current b) i"
proof (cases "i < b_current b")
  case True
  then show ?thesis using assms by (simp add: Put_def)
next
  case False
  show ?thesis
  proof (cases "b_current b < i")
    case True
    obtain r1 b1 st1 where o: "open env i t b st = (r1, b1, st1)" by (metis prod_cases3)
    have bounds: "b_current b \<le> b_current b1 \<and> b_current b1 \<le> i"
      using open_current_bounds [OF True o] .
    have "b_current b' = b_current b1"
      using assms False True o
      by (cases r1) (auto simp: Put_def split: prod.splits option.splits)
    moreover have "max (b_current b) i = i" using True by (simp add: max_def order_less_imp_le)
    ultimately show ?thesis using bounds by simp
  next
    case False
    with \<open>\<not> i < b_current b\<close> have "b_current b' = b_current b"
      using assms by (auto simp: Put_def split: prod.splits option.splits)
    then show ?thesis by simp
  qed
qed

lemma SetCurrentBucket_current_bounds:
  assumes "SetCurrentBucket env i t b st = (r, b', st')"
  shows "b_current b \<le> b_current b' \<and> b_current b' \<le> max (b_current b) i"
proof (cases "b_current b < i")
  case True
  then have "open env i t b st = (r, b', st')" using assms by (simp add: SetCurrentBucket_def)
  moreover have "max (b_current b) i = i" using True by (simp add: max_def order_less_imp_le)
  ultimately show ?thesis using open_current_bounds [OF True] by simp
next
  case False
  then show ?thesis using assms by (simp add: SetCurrentBucket_def)
qed

lemma SetDataBlock_current_monotone:
  assumes "position \<noteq> - 1" and "SetDataBlock env position numBuckets ident b = (r, b')"
  shows "b_current b \<le> b_current b'"
proof (cases "b_current b \<le> position")
  case True
  have "position \<le> - 1" by simp
  with assms(1) have "position < - 1" by (simp add: order_less_le)
  then have "position + 1 \<ge> position"
    using unat_succ_below [of position "- 1"] by (simp add: word_le_nat_alt)
  moreover have "b_current b' = position + 1"
    using assms(2) True by (auto simp: SetDataBlock_def Let_def split: if_splits)
  ultimately show ?thesis using True by simp
next
  case False
  then have "b_current b' = b_current b"
    using assms(2) by (auto simp: SetDataBlock_def Let_def split: if_splits)
  then show ?thesis by simp
qed

section \<open>The rotation step and the gap it leaves\<close>

text \<open>
  C1. Rotation. From the sentinel \<open>0\<close>, \<open>open\<close> sets \<open>b_current\<close> to the target and touches
  nothing else: no slot, no counter, no storage call. Otherwise it runs the loop: nothing
  happens when \<open>b_current\<close> already equals the target, and else one step is taken and the
  loop continues from its result; a run that ends without error ends at the target. One
  step writes into slot \<open>b_current mod n\<close> the identifier returned by \<open>Store\<close> when
  \<open>b_count > 0\<close>, or \<open>INVALID_ID\<close> with the storage untouched when \<open>b_count = 0\<close>,
  resets stream and count and adds one to \<open>b_current\<close> (and ages the recency counter).
  Rotating an empty series from \<open>b_current\<close> to \<open>nxt\<close> makes no storage call and leaves
  the slot of every bucket in between at \<open>INVALID_ID\<close>. The steps are stated for a
  storage that reports \<open>n > 0\<close> buckets and a slot inside \<open>b_blocks\<close>, where the slot
  assignment does not panic.
\<close>

theorem open_rotation:
  "(b_current b = 0 \<longrightarrow> open env nxt t b st = (NoError, b\<lparr>b_current := nxt\<rparr>, st))
   \<and> (b_current b \<noteq> 0 \<and> b_current b = nxt \<longrightarrow> open env nxt t b st = (NoError, b, st))
   \<and> (b_current b \<noteq> 0 \<and> b_current b \<noteq> nxt \<longrightarrow>
        open env nxt t b st =
          (case open_step env t b st of
             (NoError, b1, st1) \<Rightarrow> open_loop env nxt t b1 st1
           | (Error err, b1, st1) \<Rightarrow> (Error err, b1, st1)
           | (Panic p, b1, st1) \<Rightarrow> (Panic p, b1, st1)))
   \<and> (b_current b \<le> nxt \<and> open env nxt t b st = (NoError, b', st') \<longrightarrow> b_current b' = nxt)
   \<and> (b_count b > 0
        \<and> storage_Store env st (b_current b) (Bs_Stream (b_stream b)) (b_count b) t = (Inr ident, st1)
        \<and> storage_NumBuckets env st1 = n \<and> n \<noteq> 0 \<and> slot (b_current b) n < length (b_blocks b) \<longrightarrow>
        open_step env t b st =
          (NoError,
           b\<lparr>b_blocks := (b_blocks b)[slot (b_current b) n := ident],
             b_count := 0,
             b_stream := Series_Reset env (b_stream b),
             b_current := b_current b + 1,
             b_queriedBucketsAgo :=
               (if b_queriedBucketsAgo b < 255 then b_queriedBucketsAgo b + 1
                else b_queriedBucketsAgo b)\<rparr>,
           st1))
   \<and> (b_count b = 0
        \<and> storage_NumBuckets env st = n \<and> n \<noteq> 0 \<and> slot (b_current b) n < length (b_blocks b) \<longrightarrow>
        open_step env t b st =
          (NoError,
           b\<lparr>b_blocks := (b_blocks b)[slot (b_current b) n := INVALID_ID env],
             b_count := 0,
             b_stream := Series_Reset env (b_stream b),
             b_current := b_current b + 1,
             b_queriedBucketsAgo :=
               (if b_queriedBucketsAgo b < 255 then b_queriedBucketsAgo b + 1
                else b_queriedBucketsAgo b)\<rparr>,
           st))
   \<and> (b_current b \<noteq> 0 \<and> b_count b = 0 \<and> b_current b \<le> nxt
        \<and> storage_NumBuckets env st = n \<and> n \<noteq> 0 \<and> unat n \<le> length (b_blocks b) \<longrightarrow>
        (\<exists>b2. open env nxt t b st = (NoError, b2, st) \<and> b_current b2 = nxt
           \<and> (\<forall>j. b_current b \<le> j \<and> j < nxt \<longrightarrow> b_blocks b2 ! slot j n = INVALID_ID env)))"
proof (intro conjI impI)
  show "open env nxt t b st = (NoError, b\<lparr>b_current := nxt\<rparr>, st)" if "b_current b = 0"
    using that by (simp add: open_def)
  show "open env nxt t b st = (NoError, b, st)" if "b_current b \<noteq> 0 \<and> b_current b = nxt"
    using that by (simp add: open_def open_loop_done)
  show "open env nxt t b st =
          (case open_step env t b st of
             (NoError, b1, st1) \<Rightarrow> open_loop env nxt t b1 st1
           | (Error err, b1, st1) \<Rightarrow> (Error err, b1, st1)
           | (Panic p, b1, st1) \<Rightarrow> (Panic p, b1, st1))"
    if "b_current b \<noteq> 0 \<and> b_current b \<noteq> nxt"
    using that open_loop_unfold [of b nxt env t st] by (simp add: open_def)
  show "b_current b' = nxt" if h: "b_current b \<le> nxt \<and> open env nxt t b st = (NoError, b', st')"
  proof (cases "b_current b = 0")
    case True
    then show ?thesis using h by (auto simp: open_def)
  next
    case False
    then have "open_loop env nxt t b st = (NoError, b', st')" using h by (simp add: open_def)
    with h open_loop_progress [of b nxt env t st NoError b' st'] show ?thesis by simp
  qed
  show "open_step env t b st =
          (NoError,
           b\<lparr>b_blocks := (b_blocks b)[slot (b_current b) n := ident],
             b_count := 0,
             b_stream := Series_Reset env (b_stream b),
             b_current := b_current b + 1,
             b_queriedBucketsAgo :=
               (if b_queriedBucketsAgo b < 255 then b_queriedBucketsAgo b + 1
                else b_queriedBucketsAgo b)\<rparr>,
           st1)"
    if "b_count b > 0
        \<and> storage_Store env st (b_current b) (Bs_Stream (b_stream b)) (b_count b) t = (Inr ident, st1)
        \<and> storage_NumBuckets env st1 = n \<and> n \<noteq> 0 \<and> slot (b_current b) n < length (b_blocks b)"
    using that open_step_flush [of b env st t ident st1] by simp
  show "open_step env t b st =
          (NoError,
           b\<lparr>b_blocks := (b_blocks b)[slot (b_current b) n := INVALID_ID env],
             b_count := 0,
             b_stream := Series_Reset env (b_stream b),
             b_current := b_current b + 1,
             b_queriedBucketsAgo :=
               (if b_queriedBucketsAgo b < 255 then b_queriedBucketsAgo b + 1
                else b_queriedBucketsAgo b)\<rparr>,
           st)"
    if "b_count b = 0
        \<and> storage_NumBuckets env st = n \<and> n \<noteq> 0 \<and> slot (b_current b) n < length (b_blocks b)"
    using that open_step_gap [of b env st t] by simp
  show "\<exists>b2. open env nxt t b st = (NoError, b2, st) \<and> b_current b2 = nxt
           \<and> (\<forall>j. b_current b \<le> j \<and> j < nxt \<longrightarrow> b_blocks b2 ! slot j n = INVALID_ID env)"
    if h: "b_current b \<noteq> 0 \<and> b_count b = 0 \<and> b_current b \<le> nxt
        \<and> storage_NumBuckets env st = n \<and> n \<noteq> 0 \<and> unat n \<le> length (b_blocks b)"
  proof -
    from h open_loop_gap [of b nxt env st n t]
    obtain b2 where "open_loop env nxt t b st = (NoError, b2, st)" "b_current b2 = nxt"
      "\<forall>j. b_current b \<le> j \<and> j < nxt \<longrightarrow> b_blocks b2 ! slot j n = INVALID_ID env"
      by blast
    with h show ?thesis by (auto simp: open_def)
  qed
qed

theorem open_rotation_witness:
  "b_current sample_series = 0
   \<and> open sample_env 5 1 sample_series sample_storage
       = (NoError, sample_series\<lparr>b_current := 5\<rparr>, sample_storage)
   \<and> open sample_env 8 1 (sample_series\<lparr>b_current := 5, b_blocks := [1, 2, 3]\<rparr>) sample_storage
       = (NoError, sample_series\<lparr>b_current := 8\<rparr>, sample_storage)
   \<and> b_blocks (sample_series\<lparr>b_current := 8\<rparr>) ! slot 5 3 = INVALID_ID sample_env
   \<and> b_blocks (sample_series\<lparr>b_current := 8\<rparr>) ! slot 6 3 = INVALID_ID sample_env
   \<and> b_blocks (sample_series\<lparr>b_current := 8\<rparr>) ! slot 7 3 = INVALID_ID sample_env
   \<and> open_step sample_env 1 (sample_series\<lparr>b_current := 5, b_count := 1\<rparr>) sample_storage
       = (NoError,
          sample_series\<lparr>b_blocks := [- 1, - 1, 0], b_current := 6, b_count := 0\<rparr>,
          \<lparr>sstate = [([], 1)], calls = [StoreCall 5 [] 1 1]\<rparr>)"
proof -
  have sentinel: "b_current sample_series = 0"
    by (simp add: sample_series_eq)
  have jump: "open sample_env 5 1 sample_series sample_storage
       = (NoError, sample_series\<lparr>b_current := 5\<rparr>, sample_storage)"
    by (rule open_rotation [where b = sample_series and env = sample_env and nxt = 5 and t = 1
      and st = sample_storage, THEN conjunct1, THEN mp, OF sentinel])
  have gap_pre: "b_current (sample_series\<lparr>b_current := 5, b_blocks := [1, 2, 3]\<rparr>) \<noteq> 0
      \<and> b_count (sample_series\<lparr>b_current := 5, b_blocks := [1, 2, 3]\<rparr>) = 0
      \<and> b_current (sample_series\<lparr>b_current := 5, b_blocks := [1, 2, 3]\<rparr>) \<le> 8
      \<and> storage_NumBuckets sample_env sample_storage = 3 \<and> (3 :: uint32) \<noteq> 0
      \<and> unat (3 :: uint32) \<le> length (b_blocks (sample_series\<lparr>b_current := 5, b_blocks := [1, 2, 3]\<rparr>))"
    by (simp add: sample_series_eq storage_NumBuckets_def sample_env_simps)
  have run: "open sample_env 8 1 (sample_series\<lparr>b_current := 5, b_blocks := [1, 2, 3]\<rparr>)
         sample_storage
       = (NoError, sample_series\<lparr>b_current := 8\<rparr>, sample_storage)"
    by (simp add: open_def open_loop.simps open_step_def Let_def storage_NumBuckets_def slot_def
        sample_series_eq sample_env_simps sample_storage_def)
  from open_rotation [where b = "sample_series\<lparr>b_current := 5, b_blocks := [1, 2, 3]\<rparr>"
      and env = sample_env and nxt = 8 and t = 1 and st = sample_storage and n = 3,
      THEN conjunct2, THEN conjunct2, THEN conjunct2, THEN conjunct2, THEN conjunct2,
      THEN conjunct2, THEN mp, OF gap_pre]
  have all: "\<forall>j. 5 \<le> j \<and> j < 8 \<longrightarrow>
      b_blocks (sample_series\<lparr>b_current := 8\<rparr>) ! slot j 3 = INVALID_ID sample_env"
    unfolding run by simp
  have g5: "b_blocks (sample_series\<lparr>b_current := 8\<rparr>) ! slot 5 3 = INVALID_ID sample_env"
    using all [THEN spec, of 5] by simp
  have g6: "b_blocks (sample_series\<lparr>b_current := 8\<rparr>) ! slot 6 3 = INVALID_ID sample_env"
    using all [THEN spec, of 6] by simp
  have g7: "b_blocks (sample_series\<lparr>b_current := 8\<rparr>) ! slot 7 3 = INVALID_ID sample_env"
    using all [THEN spec, of 7] by simp
  have flush_pre: "b_count (sample_series\<lparr>b_current := 5, b_count := 1\<rparr>) > 0
      \<and> storage_Store sample_env sample_storage
            (b_current (sample_series\<lparr>b_current := 5, b_count := 1\<rparr>))
            (Bs_Stream (b_stream (sample_series\<lparr>b_current := 5, b_count := 1\<rparr>)))
            (b_count (sample_series\<lparr>b_current := 5, b_count := 1\<rparr>)) 1
          = (Inr 0, \<lparr>sstate = [([], 1)], calls = [StoreCall 5 [] 1 1]\<rparr>)
      \<and> storage_NumBuckets sample_env \<lparr>sstate = [([], 1)], calls = [StoreCall 5 [] 1 1]\<rparr> = 3
      \<and> (3 :: uint32) \<noteq> 0
      \<and> slot (b_current (sample_series\<lparr>b_current := 5, b_count := 1\<rparr>)) 3
          < length (b_blocks (sample_series\<lparr>b_current := 5, b_count := 1\<rparr>))"
    by (simp add: sample_series_eq storage_NumBuckets_def storage_Store_def sample_storage_def
        sample_env_simps slot_def)
  have flush: "open_step sample_env 1 (sample_series\<lparr>b_current := 5, b_count := 1\<rparr>) sample_storage
       = (NoError,
          sample_series\<lparr>b_blocks := [- 1, - 1, 0], b_current := 6, b_count := 0\<rparr>,
          \<lparr>sstate = [([], 1)], calls = [StoreCall 5 [] 1 1]\<rparr>)"
    using open_rotation [where b = "sample_series\<lparr>b_current := 5, b_count := 1\<rparr>"
      and env = sample_env and t = 1 and st = sample_storage and n = 3 and ident = 0
      and ?st1.0 = "\<lparr>sstate = [([], 1)], calls = [StoreCall 5 [] 1 1]\<rparr>",
      THEN conjunct2, THEN conjunct2, THEN conjunct2, THEN conjunct2, THEN conjunct1, THEN mp,
      OF flush_pre]
    by (simp add: sample_series_eq sample_env_simps slot_def)
  show ?thesis using sentinel jump run g5 g6 g7 flush by simp
qed

section \<open>Stale writes\<close>

text \<open>
  C2. A \<open>Put\<close> whose bucket number is strictly below \<open>b_current\<close> returns the error
  "Invalid bucket number!" and hands back the series and the storage as they were:
  counters, stream, category, every slot and the recency counter keep their values and
  no call reaches the storage.
\<close>

theorem Put_stale_bucket_rejected:
  "i < b_current b \<Longrightarrow>
     Put env i timeSeriesId dp category b storage = (Error ''Invalid bucket number!'', b, storage)"
  by (simp add: Put_def)

theorem Put_stale_bucket_rejected_witness:
  "(3 :: uint32) < b_current (sample_series\<lparr>b_current := 5, b_count := 2\<rparr>) \<and>
   Put sample_env 3 1 (sample_point 10) (Some 4) (sample_series\<lparr>b_current := 5, b_count := 2\<rparr>)
       sample_storage
     = (Error ''Invalid bucket number!'', sample_series\<lparr>b_current := 5, b_count := 2\<rparr>,
        sample_storage)"
  using Put_stale_bucket_rejected
    [of 3 "sample_series\<lparr>b_current := 5, b_count := 2\<rparr>" sample_env 1 "sample_point 10" "Some 4"
        sample_storage]
  by simp

section \<open>Monotonicity of the current bucket\<close>

text \<open>
  C3. \<open>b_current\<close> is meant never to decrease. \<open>SetDataBlock\<close> computes
  \<open>position + 1\<close> in \<open>uint32\<close>: for \<open>position = 4294967295\<close> the sum wraps to \<open>0\<close>, and
  a series that stood at bucket 5 is back at the sentinel.
\<close>

theorem SetDataBlock_wraps_current:
  "SetDataBlock sample_env 4294967295 3 7 (sample_series\<lparr>b_current := 5\<rparr>)
     = (NoError, sample_series\<lparr>b_current := 0, b_blocks := [7, - 1, - 1]\<rparr>)
   \<and> b_current (sample_series\<lparr>b_current := 0, b_blocks := [7, - 1, - 1]\<rparr>)
       < b_current (sample_series\<lparr>b_current := 5\<rparr>)"
  by (simp add: SetDataBlock_def Let_def slot_def sample_series_eq sample_env_simps)

section \<open>The range of a read\<close>

text \<open>
  C4, as the code has it. \<open>Get\<close> always returns. Every fetch it issues is for a bucket
  \<open>j\<close> of the requested range with \<open>current_bucket - n \<le> j\<close>; \<open>j\<close> is below
  \<open>b_current\<close> when \<open>b_current\<close> is not the sentinel, and \<open>j = 0\<close> when it is. A range that
  begins after \<open>b_current\<close> issues no fetch, leaves the storage alone and returns the empty
  result.
\<close>

theorem Get_fetches_within_window:
  "\<exists>r out st' new.
      Get env bg en b st = Some (r, out, b, st')
      \<and> calls st' = calls st @ new
      \<and> (\<forall>c \<in> set new. \<exists>j ident. c = FetchCall j ident
            \<and> unat (b_current b) - unat (storage_NumBuckets env st) \<le> unat j
            \<and> (b_current b \<noteq> 0 \<longrightarrow> j < b_current b)
            \<and> (b_current b = 0 \<longrightarrow> j = 0)
            \<and> bg \<le> j \<and> j \<le> en)
      \<and> (b_current b < bg \<longrightarrow> new = [] \<and> st' = st \<and> out = [] \<and> r = NoError)"
proof -
  define n where "n = storage_NumBuckets env st"
  define bg1 where "bg1 = clamped_begin (b_current b) n bg"
  define en1 where "en1 = clamped_end (b_current b) en"
  have en1_ne: "en1 \<noteq> - 1" by (simp add: en1_def clamped_end_props(1))
  from Get_loop_calls [OF en1_ne, of env b n bg1 "[]" st]
  obtain r0 st' new where loop: "Get_loop env b n bg1 en1 [] st = Some (r0, st')"
    and cs: "calls st' = calls st @ new"
    and rng: "\<forall>c \<in> set new. \<exists>j ident. c = FetchCall j ident \<and> bg1 \<le> j \<and> j \<le> en1"
    by blast
  define r where "r = (case r0 of Inl p \<Rightarrow> Panic p | Inr out \<Rightarrow> NoError)"
  define out where "out =
    (case r0 of Inl p \<Rightarrow> []
     | Inr out0 \<Rightarrow>
         (if bg \<le> b_current b \<and> b_current b \<le> en
          then out0 @ [\<lparr>Data = Series_ReadData env (b_stream b), Count = b_count b\<rparr>]
          else out0))"
  have get: "Get env bg en b st = Some (r, out, b, st')"
    using loop by (simp add: Get_unfold n_def [symmetric] bg1_def [symmetric]
        en1_def [symmetric] r_def out_def split: sum.splits)
  have window: "\<forall>c \<in> set new. \<exists>j ident. c = FetchCall j ident
            \<and> unat (b_current b) - unat (storage_NumBuckets env st) \<le> unat j
            \<and> (b_current b \<noteq> 0 \<longrightarrow> j < b_current b)
            \<and> (b_current b = 0 \<longrightarrow> j = 0)
            \<and> bg \<le> j \<and> j \<le> en"
  proof
    fix c assume "c \<in> set new"
    with rng obtain j ident where c: "c = FetchCall j ident" and lo: "bg1 \<le> j" and hi: "j \<le> en1"
      by blast
    have "unat (b_current b) - unat n \<le> unat bg1"
      by (simp add: bg1_def clamped_begin_props(2))
    then have a: "unat (b_current b) - unat (storage_NumBuckets env st) \<le> unat j"
      using lo by (simp add: n_def word_le_nat_alt)
    have b1: "b_current b \<noteq> 0 \<longrightarrow> j < b_current b"
      using hi clamped_end_props(3) [of "b_current b" en] by (auto simp: en1_def)
    have b2: "b_current b = 0 \<longrightarrow> j = 0"
      using hi clamped_end_props(4) [of "b_current b" en] by (auto simp: en1_def)
    have d: "bg \<le> j"
      using lo clamped_begin_props(1) [of bg "b_current b" n] by (auto simp: bg1_def)
    have e: "j \<le> en"
      using hi clamped_end_props(2) [of "b_current b" en] by (auto simp: en1_def)
    show "\<exists>j ident. c = FetchCall j ident
            \<and> unat (b_current b) - unat (storage_NumBuckets env st) \<le> unat j
            \<and> (b_current b \<noteq> 0 \<longrightarrow> j < b_current b)
            \<and> (b_current b = 0 \<longrightarrow> j = 0)
            \<and> bg \<le> j \<and> j \<le> en"
      using c a b1 b2 d e by blast
  qed
  have future: "new = [] \<and> st' = st \<and> out = [] \<and> r = NoError" if beyond: "b_current b < bg"
  proof -
    have "en1 < bg1"
    proof (cases "b_current b = 0")
      case True
      then have "en1 = 0" by (simp add: en1_def clamped_end_props(4))
      moreover have "bg \<le> bg1" by (simp add: bg1_def clamped_begin_props(1))
      ultimately show ?thesis using beyond True by auto
    next
      case False
      then have "en1 < b_current b" by (simp add: en1_def clamped_end_props(3))
      moreover have "bg \<le> bg1" by (simp add: bg1_def clamped_begin_props(1))
      ultimately show ?thesis using beyond by auto
    qed
    then have empty: "\<not> bg1 \<le> en1" by simp
    then have "Get_loop env b n bg1 en1 [] st = Some (Inr [], st)"
      by (subst Get_loop.simps) simp
    with loop have r0: "r0 = Inr []" and st': "st' = st" by simp_all
    have "new = []" using cs st' by simp
    moreover have "out = []" using r0 beyond by (auto simp: out_def)
    moreover have "r = NoError" using r0 by (simp add: r_def)
    ultimately show ?thesis using st' by simp
  qed
  show ?thesis using get cs window future by blast
qed

theorem Get_fetches_within_window_witness:
  "Get sample_env 4 7 scenario_series scenario_storage
     = Some (NoError, [\<lparr>Data = [10], Count = 1\<rparr>, \<lparr>Data = [11], Count = 1\<rparr>], scenario_series,
         \<lparr>sstate = [([10], 1)],
          calls = calls scenario_storage @ [FetchCall 4 (- 1), FetchCall 5 0, FetchCall 6 (- 1)]\<rparr>)
   \<and> unat (b_current scenario_series) - unat (storage_NumBuckets sample_env scenario_storage)
       \<le> unat (4 :: uint32)
   \<and> (6 :: uint32) < b_current scenario_series
   \<and> Get sample_env 9 12 scenario_series scenario_storage
       = Some (NoError, [], scenario_series, scenario_storage)"
proof -
  have run: "Get sample_env 4 7 scenario_series scenario_storage
     = Some (NoError, [\<lparr>Data = [10], Count = 1\<rparr>, \<lparr>Data = [11], Count = 1\<rparr>], scenario_series,
         \<lparr>sstate = [([10], 1)],
          calls = calls scenario_storage @ [FetchCall 4 (- 1), FetchCall 5 0, FetchCall 6 (- 1)]\<rparr>)"
    using scenario_Get by (simp add: scenario_storage_def)
  from Get_fetches_within_window [of sample_env 4 7 scenario_series scenario_storage]
  obtain new where
    "calls \<lparr>sstate = [([10 :: uint8], 1 :: uint16)],
            calls = calls scenario_storage @ [FetchCall 4 (- 1), FetchCall 5 0, FetchCall 6 (- 1)]\<rparr>
       = calls scenario_storage @ new"
    and window: "\<forall>c \<in> set new. \<exists>j ident. c = FetchCall j ident
            \<and> unat (b_current scenario_series) - unat (storage_NumBuckets sample_env scenario_storage)
                \<le> unat j
            \<and> (b_current scenario_series \<noteq> 0 \<longrightarrow> j < b_current scenario_series)
            \<and> (b_current scenario_series = 0 \<longrightarrow> j = 0)
            \<and> 4 \<le> j \<and> j \<le> 7"
    unfolding run by auto
  then have new: "new = [FetchCall 4 (- 1), FetchCall 5 0, FetchCall 6 (- 1)]"
    by simp
  have cur: "b_current scenario_series \<noteq> 0" by (simp add: scenario_series_def)
  from window new cur
  have lo: "unat (b_current scenario_series) - unat (storage_NumBuckets sample_env scenario_storage)
       \<le> unat (4 :: uint32)"
    and hi: "(6 :: uint32) < b_current scenario_series"
    by auto
  have beyond: "b_current scenario_series < 9" by (simp add: scenario_series_def)
  from Get_fetches_within_window [of sample_env 9 12 scenario_series scenario_storage] beyond
  have "Get sample_env 9 12 scenario_series scenario_storage
       = Some (NoError, [], scenario_series, scenario_storage)"
    by auto
  with run lo hi show ?thesis by simp
qed

text \<open>
  C4 as stated fails at the sentinel: on a freshly reset series, \<open>Get 0 0\<close> fetches
  bucket \<open>0\<close>, which is not below \<open>b_current = 0\<close>.
\<close>

theorem Get_fetches_bucket_zero_at_sentinel:
  "Get sample_env 0 0 sample_series sample_storage
     = Some (NoError, [\<lparr>Data = [], Count = 0\<rparr>], sample_series,
         \<lparr>sstate = [], calls = calls sample_storage @ [FetchCall 0 (- 1)]\<rparr>)
   \<and> \<not> (0 :: uint32) < b_current sample_series"
  using fresh_Get by (simp add: sample_series_eq sample_storage_def)

section \<open>The result of a read\<close>

text \<open>
  C5. \<open>Get\<close> never returns an error. With a storage that reports \<open>n > 0\<close> buckets and
  at least \<open>n\<close> slots in \<open>b_blocks\<close>, its result is the blocks of the clamped range whose
  fetch succeeded, in increasing bucket order, a failed fetch adding nothing, followed by
  one block with the bytes of the active stream and \<open>b_count\<close> exactly when
  \<open>begin \<le> b_current \<le> end\<close> holds for the arguments as given.
\<close>

theorem Get_never_returns_error:
  "(\<exists>r out st'. Get env bg en b st = Some (r, out, b, st') \<and> (\<forall>e. r \<noteq> Error e))
   \<and> (storage_NumBuckets env st \<noteq> 0
        \<and> unat (storage_NumBuckets env st) \<le> length (b_blocks b) \<longrightarrow>
       Get env bg en b st =
         Some (NoError,
               fst (fetched_blocks env b (storage_NumBuckets env st)
                      (bucket_range
                         (clamped_begin (b_current b) (storage_NumBuckets env st) bg)
                         (clamped_end (b_current b) en))
                      st)
                 @ (if bg \<le> b_current b \<and> b_current b \<le> en
                    then [\<lparr>Data = Series_ReadData env (b_stream b), Count = b_count b\<rparr>]
                    else []),
               b,
               snd (fetched_blocks env b (storage_NumBuckets env st)
                      (bucket_range
                         (clamped_begin (b_current b) (storage_NumBuckets env st) bg)
                         (clamped_end (b_current b) en))
                      st)))"
proof (intro conjI impI)
  have en1_ne: "clamped_end (b_current b) en \<noteq> - 1" by (rule clamped_end_props(1))
  from Get_loop_calls [OF en1_ne, of env b "storage_NumBuckets env st"
      "clamped_begin (b_current b) (storage_NumBuckets env st) bg" "[]" st]
  obtain r0 st' where loop: "Get_loop env b (storage_NumBuckets env st)
      (clamped_begin (b_current b) (storage_NumBuckets env st) bg)
      (clamped_end (b_current b) en) [] st = Some (r0, st')"
    by blast
  show "\<exists>r out st'. Get env bg en b st = Some (r, out, b, st') \<and> (\<forall>e. r \<noteq> Error e)"
    using loop by (cases r0) (simp_all add: Get_unfold)
next
  assume wf: "storage_NumBuckets env st \<noteq> 0
        \<and> unat (storage_NumBuckets env st) \<le> length (b_blocks b)"
  have en1_ne: "clamped_end (b_current b) en \<noteq> - 1" by (rule clamped_end_props(1))
  from wf have n: "storage_NumBuckets env st \<noteq> 0"
    and len: "unat (storage_NumBuckets env st) \<le> length (b_blocks b)" by simp_all
  show "Get env bg en b st =
         Some (NoError,
               fst (fetched_blocks env b (storage_NumBuckets env st)
                      (bucket_range
                         (clamped_begin (b_current b) (storage_NumBuckets env st) bg)
                         (clamped_end (b_current b) en))
                      st)
                 @ (if bg \<le> b_current b \<and> b_current b \<le> en
                    then [\<lparr>Data = Series_ReadData env (b_stream b), Count = b_count b\<rparr>]
                    else []),
               b,
               snd (fetched_blocks env b (storage_NumBuckets env st)
                      (bucket_range
                         (clamped_begin (b_current b) (storage_NumBuckets env st) bg)
                         (clamped_end (b_current b) en))
                      st))"
    by (simp add: Get_unfold Get_loop_fetched [OF en1_ne n len])
qed

theorem Get_never_returns_error_witness:
  "storage_NumBuckets sample_env scenario_storage \<noteq> 0
   \<and> unat (storage_NumBuckets sample_env scenario_storage) \<le> length (b_blocks scenario_series)
   \<and> fetched_blocks sample_env scenario_series 3 [4, 5, 6] scenario_storage
       = ([\<lparr>Data = [10], Count = 1\<rparr>],
          \<lparr>sstate = [([10], 1)],
           calls = [StoreCall 5 [10] 1 1, FetchCall 4 (- 1), FetchCall 5 0, FetchCall 6 (- 1)]\<rparr>)
   \<and> Get sample_env 4 7 scenario_series scenario_storage
       = Some (NoError, [\<lparr>Data = [10], Count = 1\<rparr>, \<lparr>Data = [11], Count = 1\<rparr>], scenario_series,
           \<lparr>sstate = [([10], 1)],
            calls = [StoreCall 5 [10] 1 1, FetchCall 4 (- 1), FetchCall 5 0, FetchCall 6 (- 1)]\<rparr>)"
proof -
  have wf: "storage_NumBuckets sample_env scenario_storage \<noteq> 0
   \<and> unat (storage_NumBuckets sample_env scenario_storage) \<le> length (b_blocks scenario_series)"
    by (simp add: storage_NumBuckets_def sample_env_simps scenario_series_def)
  have fetched: "fetched_blocks sample_env scenario_series 3 [4, 5, 6] scenario_storage
       = ([\<lparr>Data = [10], Count = 1\<rparr>],
          \<lparr>sstate = [([10], 1)],
           calls = [StoreCall 5 [10] 1 1, FetchCall 4 (- 1), FetchCall 5 0, FetchCall 6 (- 1)]\<rparr>)"
    by (simp add: storage_Fetch_def slot_def unat_invalid_id sample_env_simps
        scenario_series_def scenario_storage_def)
  have n3: "storage_NumBuckets sample_env scenario_storage = 3"
    by (simp add: storage_NumBuckets_def sample_env_simps)
  have cur: "b_current scenario_series = 7" by (simp add: scenario_series_def)
  from Get_never_returns_error [of sample_env 4 7 scenario_series scenario_storage,
      THEN conjunct2, THEN mp, OF wf]
  have "Get sample_env 4 7 scenario_series scenario_storage
       = Some (NoError, [\<lparr>Data = [10], Count = 1\<rparr>, \<lparr>Data = [11], Count = 1\<rparr>], scenario_series,
           \<lparr>sstate = [([10], 1)],
            calls = [StoreCall 5 [10] 1 1, FetchCall 4 (- 1), FetchCall 5 0, FetchCall 6 (- 1)]\<rparr>)"
    unfolding n3 cur scenario_range fetched
    by (simp add: scenario_series_def sample_env_simps)
  with wf fetched show ?thesis by simp
qed

section \<open>The recency counter\<close>

text \<open>
  C6. The recency counter saturates. \<open>Reset\<close> sets it to \<open>255\<close>, which is what
  \<open>GetQueriedBucketsAgo\<close> then returns; \<open>SetQueried\<close> sets it to \<open>0\<close>; one rotation step
  adds one unless it is \<open>255\<close> already; a rotation from \<open>b_current\<close> to \<open>nxt\<close>, which is
  \<open>k = nxt - b_current\<close> steps, takes it from \<open>v\<close> to \<open>min (v + k) 255\<close>.
\<close>

theorem recency_counter_saturates:
  "b_queriedBucketsAgo (Reset env capacity b) = 255
   \<and> GetQueriedBucketsAgo (Reset env capacity b) = 255
   \<and> GetQueriedBucketsAgo (SetQueried b) = 0
   \<and> (open_step env t b st = (NoError, b1, st1) \<longrightarrow>
        b_queriedBucketsAgo b1
          = (if b_queriedBucketsAgo b = 255 then 255 else b_queriedBucketsAgo b + 1)
        \<and> unat (b_queriedBucketsAgo b1) = min (unat (b_queriedBucketsAgo b) + 1) 255)
   \<and> (b_current b \<noteq> 0 \<and> b_current b \<le> nxt \<and> open env nxt t b st = (NoError, b', st') \<longrightarrow>
        unat (b_queriedBucketsAgo b')
          = min (unat (b_queriedBucketsAgo b) + (unat nxt - unat (b_current b))) 255)"
proof (intro conjI impI)
  show "b_queriedBucketsAgo (Reset env capacity b) = 255"
    by (simp add: Reset_def)
  show "GetQueriedBucketsAgo (Reset env capacity b) = 255"
    by (simp add: Reset_def GetQueriedBucketsAgo_def)
  show "GetQueriedBucketsAgo (SetQueried b) = 0"
    by (simp add: SetQueried_def GetQueriedBucketsAgo_def)
next
  assume step: "open_step env t b st = (NoError, b1, st1)"
  have q1: "b_queriedBucketsAgo b1
      = (if b_queriedBucketsAgo b < 255 then b_queriedBucketsAgo b + 1 else b_queriedBucketsAgo b)"
    using step by (rule open_step_NoError(4))
  have "\<not> b_queriedBucketsAgo b < 255 \<longleftrightarrow> b_queriedBucketsAgo b = 255"
  proof -
    have "unat (b_queriedBucketsAgo b) < 2 ^ LENGTH(8)" by (rule unsigned_less)
    then have "\<not> unat (b_queriedBucketsAgo b) < 255 \<longleftrightarrow> unat (b_queriedBucketsAgo b) = 255"
      by auto
    then show ?thesis by (simp add: word_less_nat_alt word_unat_eq_iff)
  qed
  then show "b_queriedBucketsAgo b1
      = (if b_queriedBucketsAgo b = 255 then 255 else b_queriedBucketsAgo b + 1)"
    using q1 by auto
  show "unat (b_queriedBucketsAgo b1) = min (unat (b_queriedBucketsAgo b) + 1) 255"
    using q1 unat_saturating_inc [of "b_queriedBucketsAgo b"] by simp
next
  assume h: "b_current b \<noteq> 0 \<and> b_current b \<le> nxt \<and> open env nxt t b st = (NoError, b', st')"
  then have loop: "open_loop env nxt t b st = (NoError, b', st')"
    by (auto simp: open_def)
  from h have le: "b_current b \<le> nxt" by simp
  from open_loop_progress [OF le loop]
  show "unat (b_queriedBucketsAgo b')
          = min (unat (b_queriedBucketsAgo b) + (unat nxt - unat (b_current b))) 255"
    by simp
qed

theorem recency_counter_saturates_witness:
  "b_current (sample_series\<lparr>b_current := 5, b_queriedBucketsAgo := 253\<rparr>) \<noteq> 0
   \<and> b_current (sample_series\<lparr>b_current := 5, b_queriedBucketsAgo := 253\<rparr>) \<le> 8
   \<and> open sample_env 8 1 (sample_series\<lparr>b_current := 5, b_queriedBucketsAgo := 253\<rparr>)
         sample_storage
       = (NoError, sample_series\<lparr>b_current := 8, b_queriedBucketsAgo := 255\<rparr>, sample_storage)
   \<and> unat (b_queriedBucketsAgo (sample_series\<lparr>b_current := 8, b_queriedBucketsAgo := 255\<rparr>))
       = min (unat (b_queriedBucketsAgo (sample_series\<lparr>b_current := 5, b_queriedBucketsAgo := 253\<rparr>))
              + (unat (8 :: uint32)
                 - unat (b_current (sample_series\<lparr>b_current := 5, b_queriedBucketsAgo := 253\<rparr>))))
           255"
proof -
  have pre: "b_current (sample_series\<lparr>b_current := 5, b_queriedBucketsAgo := 253\<rparr>) \<noteq> 0
   \<and> b_current (sample_series\<lparr>b_current := 5, b_queriedBucketsAgo := 253\<rparr>) \<le> 8
   \<and> open sample_env 8 1 (sample_series\<lparr>b_current := 5, b_queriedBucketsAgo := 253\<rparr>)
         sample_storage
       = (NoError, sample_series\<lparr>b_current := 8, b_queriedBucketsAgo := 255\<rparr>, sample_storage)"
    by (simp add: open_def open_loop.simps open_step_def Let_def storage_NumBuckets_def slot_def
        sample_series_eq sample_env_simps sample_storage_def)
  from recency_counter_saturates
    [where b = "sample_series\<lparr>b_current := 5, b_queriedBucketsAgo := 253\<rparr>" and nxt = 8
      and env = sample_env and t = 1 and st = sample_storage
      and b' = "sample_series\<lparr>b_current := 8, b_queriedBucketsAgo := 255\<rparr>"
      and st' = sample_storage,
      THEN conjunct2, THEN conjunct2, THEN conjunct2, THEN conjunct2, THEN mp, OF pre]
  show ?thesis using pre by blast
qed

section \<open>Slot reuse\<close>



section \<open>Reads and the recency counter\<close>

text \<open>
  C8, as the code has it. \<open>Get\<close> always returns and hands the series back unchanged,
  so the recency counter after a read is what it was before the read; \<open>SetQueried\<close> sets
  it to \<open>0\<close>.
\<close>

theorem Get_keeps_recency_counter:
  "(\<exists>r out st'. Get env bg en b st = Some (r, out, b, st'))
   \<and> (\<forall>r out b' st'. Get env bg en b st = Some (r, out, b', st') \<longrightarrow>
         b' = b \<and> b_queriedBucketsAgo b' = b_queriedBucketsAgo b)
   \<and> b_queriedBucketsAgo (SetQueried b) = 0"
proof (intro conjI)
  have en1_ne: "clamped_end (b_current b) en \<noteq> - 1" by (rule clamped_end_props(1))
  from Get_loop_calls [OF en1_ne, of env b "storage_NumBuckets env st"
      "clamped_begin (b_current b) (storage_NumBuckets env st) bg" "[]" st]
  obtain r0 st' where loop: "Get_loop env b (storage_NumBuckets env st)
      (clamped_begin (b_current b) (storage_NumBuckets env st) bg)
      (clamped_end (b_current b) en) [] st = Some (r0, st')"
    by blast
  show "\<exists>r out st'. Get env bg en b st = Some (r, out, b, st')"
    using loop by (cases r0) (simp_all add: Get_unfold)
  show "\<forall>r out b' st'. Get env bg en b st = Some (r, out, b', st') \<longrightarrow>
         b' = b \<and> b_queriedBucketsAgo b' = b_queriedBucketsAgo b"
    by (auto simp: Get_unfold split: option.splits sum.splits)
  show "b_queriedBucketsAgo (SetQueried b) = 0"
    by (simp add: SetQueried_def)
qed

theorem Get_keeps_recency_counter_witness:
  "Get sample_env 4 7 scenario_series scenario_storage
     = Some (NoError, [\<lparr>Data = [10], Count = 1\<rparr>, \<lparr>Data = [11], Count = 1\<rparr>], scenario_series,
         \<lparr>sstate = [([10], 1)],
          calls = [StoreCall 5 [10] 1 1, FetchCall 4 (- 1), FetchCall 5 0, FetchCall 6 (- 1)]\<rparr>)
   \<and> b_queriedBucketsAgo scenario_series = 255
   \<and> b_queriedBucketsAgo (SetQueried scenario_series) = 0"
proof -
  note keeps = Get_keeps_recency_counter [of sample_env 4 7 scenario_series scenario_storage]
  from keeps obtain r out st' where
    "Get sample_env 4 7 scenario_series scenario_storage = Some (r, out, scenario_series, st')"
    by blast
  with scenario_Get have run: "Get sample_env 4 7 scenario_series scenario_storage
     = Some (NoError, [\<lparr>Data = [10], Count = 1\<rparr>, \<lparr>Data = [11], Count = 1\<rparr>], scenario_series,
         \<lparr>sstate = [([10], 1)],
          calls = [StoreCall 5 [10] 1 1, FetchCall 4 (- 1), FetchCall 5 0, FetchCall 6 (- 1)]\<rparr>)"
    by simp
  have "b_queriedBucketsAgo (SetQueried scenario_series) = 0" using keeps by blast
  moreover have "b_queriedBucketsAgo scenario_series = 255" by (simp add: scenario_series_def)
  ultimately show ?thesis using run by simp
qed

text \<open>
  C8 as stated fails: a read of a freshly reset series leaves the counter at \<open>255\<close>.
\<close>

theorem Get_does_not_reset_recency:
  "Get sample_env 0 0 sample_series sample_storage
     = Some (NoError, [\<lparr>Data = [], Count = 0\<rparr>], sample_series,
         \<lparr>sstate = [], calls = [FetchCall 0 (- 1)]\<rparr>)
   \<and> b_queriedBucketsAgo sample_series = 255
   \<and> b_queriedBucketsAgo sample_series \<noteq> 0"
  using fresh_Get by (simp add: sample_series_eq)

section \<open>Writes at the sentinel\<close>

text \<open>
  C9. On a series still at the sentinel, \<open>Put\<close> with bucket \<open>0\<close> appends the point and
  counts it (when the stream accepts the point). From such a series \<open>open\<close>,
  \<open>SetCurrentBucket\<close> and \<open>Put\<close> with a bucket \<open>i > 0\<close> only set \<open>b_current\<close> to
  \<open>i\<close>: the storage is not called and stream and count are not reset, so the points
  buffered at the sentinel stay, and the next rotation step stores them under bucket
  \<open>i\<close>.
\<close>

theorem sentinel_points_move_to_first_bucket:
  assumes "b_current b = 0"
    and "Series_Append env (b_stream b) (Timestamp dp) (Value dp) (MinTimestampDelta env) = (None, s')"
  shows "Put env 0 timeSeriesId dp category b storage
           = (NoError,
              b\<lparr>b_stream := (case category of None \<Rightarrow> s' | Some c \<Rightarrow> s'\<lparr>ExtraData := c\<rparr>),
                b_count := b_count b + 1\<rparr>,
              storage)
         \<and> (\<forall>i > 0.
               open env i timeSeriesId b storage = (NoError, b\<lparr>b_current := i\<rparr>, storage)
             \<and> SetCurrentBucket env i timeSeriesId b storage = (NoError, b\<lparr>b_current := i\<rparr>, storage)
             \<and> Put env i timeSeriesId dp category b storage
                 = (NoError,
                    b\<lparr>b_current := i,
                      b_stream := (case category of None \<Rightarrow> s' | Some c \<Rightarrow> s'\<lparr>ExtraData := c\<rparr>),
                      b_count := b_count b + 1\<rparr>,
                    storage)
             \<and> (b_count b > 0 \<longrightarrow>
                  calls (snd (snd (open_step env timeSeriesId (b\<lparr>b_current := i\<rparr>) storage)))
                    = calls storage @ [StoreCall i (Bs_Stream (b_stream b)) (b_count b) timeSeriesId]))"
  using assms
  by (auto simp: Put_def SetCurrentBucket_def open_def word_gt_0 open_step_Store_call)

theorem sentinel_points_move_to_first_bucket_witness:
  "b_current sample_series = 0
   \<and> Put sample_env 0 1 (sample_point 10) None sample_series sample_storage
       = (NoError, buffered_series, sample_storage)
   \<and> b_current buffered_series = 0
   \<and> SetCurrentBucket sample_env 5 1 buffered_series sample_storage
       = (NoError, buffered_series\<lparr>b_current := 5\<rparr>, sample_storage)
   \<and> Put sample_env 5 1 (sample_point 11) None buffered_series sample_storage
       = (NoError,
          buffered_series\<lparr>b_current := 5,
            b_stream := \<lparr>Bs_Stream = [10, 11], ExtraData = 0, rest = ()\<rparr>, b_count := 2\<rparr>,
          sample_storage)
   \<and> calls (snd (snd (open_step sample_env 1 (buffered_series\<lparr>b_current := 5\<rparr>) sample_storage)))
       = calls sample_storage @ [StoreCall 5 [10] 1 1]"
proof -
  have s0: "b_current sample_series = 0" by (simp add: sample_series_eq)
  have a0: "Series_Append sample_env (b_stream sample_series) (Timestamp (sample_point 10))
      (Value (sample_point 10)) (MinTimestampDelta sample_env)
      = (None, \<lparr>Bs_Stream = [10], ExtraData = 0, rest = ()\<rparr>)"
    by (simp add: sample_env_simps sample_series_eq sample_point_def)
  have s1: "b_current buffered_series = 0" by (simp add: buffered_series_def sample_series_eq)
  have a1: "Series_Append sample_env (b_stream buffered_series) (Timestamp (sample_point 11))
      (Value (sample_point 11)) (MinTimestampDelta sample_env)
      = (None, \<lparr>Bs_Stream = [10, 11], ExtraData = 0, rest = ()\<rparr>)"
    by (simp add: sample_env_simps buffered_series_def sample_point_def)
  have c1: "b_count buffered_series > 0" by (simp add: buffered_series_def)
  note first = sentinel_points_move_to_first_bucket [OF s0 a0, of 1 None sample_storage]
  note later = sentinel_points_move_to_first_bucket [OF s1 a1, of 1 None sample_storage]
  have "Put sample_env 0 1 (sample_point 10) None sample_series sample_storage
       = (NoError, buffered_series, sample_storage)"
    using first by (simp add: buffered_series_def sample_series_eq)
  moreover have "SetCurrentBucket sample_env 5 1 buffered_series sample_storage
       = (NoError, buffered_series\<lparr>b_current := 5\<rparr>, sample_storage)"
    using later by simp
  moreover have "Put sample_env 5 1 (sample_point 11) None buffered_series sample_storage
       = (NoError,
          buffered_series\<lparr>b_current := 5,
            b_stream := \<lparr>Bs_Stream = [10, 11], ExtraData = 0, rest = ()\<rparr>, b_count := 2\<rparr>,
          sample_storage)"
    using later by (simp add: buffered_series_def sample_series_eq)
  moreover have "calls (snd (snd (open_step sample_env 1 (buffered_series\<lparr>b_current := 5\<rparr>)
        sample_storage)))
       = calls sample_storage @ [StoreCall 5 [10] 1 1]"
    using later c1 by (simp add: buffered_series_def sample_series_eq)
  ultimately show ?thesis using s0 s1 by simp
qed

section \<open>Out-of-band block assignment\<close>

text \<open>
  C10. \<open>SetDataBlock\<close> writes the identifier into slot \<open>position mod numBuckets\<close>
  whether or not \<open>position\<close> is below \<open>b_current\<close> (for \<open>numBuckets > 0\<close> and a slot
  inside \<open>b_blocks\<close>). When \<open>position < b_current\<close>, that slot is all that changes. The
  slot may belong to a more recent bucket: in the scenario, slot 2 holds the block of
  bucket 5 and \<open>SetDataBlock\<close> for position 2 replaces it.
\<close>

theorem set_data_block_below_current:
  assumes "ucast numBuckets \<noteq> (0 :: uint32)"
    and "slot position (ucast numBuckets) < length (b_blocks b)"
  shows "(\<exists>b'. SetDataBlock env position numBuckets ident b = (NoError, b')
            \<and> b_blocks b' = (b_blocks b)[slot position (ucast numBuckets) := ident]
            \<and> b_blocks b' ! slot position (ucast numBuckets) = ident)
         \<and> (position < b_current b \<longrightarrow>
              SetDataBlock env position numBuckets ident b
                = (NoError, b\<lparr>b_blocks := (b_blocks b)[slot position (ucast numBuckets) := ident]\<rparr>))"
  using assms by (auto simp: SetDataBlock_def Let_def)

theorem set_data_block_below_current_witness:
  "ucast (3 :: uint8) \<noteq> (0 :: uint32)
   \<and> slot 2 (ucast (3 :: uint8)) < length (b_blocks scenario_series)
   \<and> 2 < b_current scenario_series
   \<and> SetDataBlock sample_env 2 3 99 scenario_series
       = (NoError, scenario_series\<lparr>b_blocks := [- 1, - 1, 99]\<rparr>)
   \<and> slot 5 3 = slot 2 (ucast (3 :: uint8))
   \<and> b_blocks scenario_series ! slot 5 3 = 0"
proof -
  have n: "ucast (3 :: uint8) \<noteq> (0 :: uint32)" by simp
  have i: "slot 2 (ucast (3 :: uint8)) < length (b_blocks scenario_series)"
    by (simp add: slot_def scenario_series_def)
  have below: "2 < b_current scenario_series" by (simp add: scenario_series_def)
  from set_data_block_below_current [OF n i, of sample_env 99, THEN conjunct2, THEN mp, OF below]
  have "SetDataBlock sample_env 2 3 99 scenario_series
       = (NoError, scenario_series\<lparr>b_blocks := [- 1, - 1, 99]\<rparr>)"
    by (simp add: slot_def scenario_series_def)
  moreover have "slot 5 3 = slot 2 (ucast (3 :: uint8))" by (simp add: slot_def)
  moreover have "b_blocks scenario_series ! slot 5 3 = 0"
    by (simp add: slot_def scenario_series_def)
  ultimately show ?thesis using n i below by simp
qed

end
